theory Spec2Isabelle
  imports Main
begin

section \<open>Exceptions and effects\<close>

text \<open>
  The two source files are asynchronous TypeScript: every collaborator call is awaited,
  so a rejected promise behaves as an exception thrown at the call. A program is a
  function from the state to an outcome and the new state; the outcome is \<open>Inl e\<close> when
  the exception \<open>e\<close> escapes and \<open>Inr x\<close> when the program returns \<open>x\<close>. The state
  changes made before an exception are kept, as in the source.
\<close>

datatype error = BackendError string | Failure string

fun message :: "error \<Rightarrow> string" where
  "message (BackendError m) = m"
| "message (Failure m) = m"

type_synonym ('s, 'a) prog = "'s \<Rightarrow> (error + 'a) \<times> 's"

definition ok :: "'a \<Rightarrow> ('s, 'a) prog" where
  "ok x = (\<lambda>s. (Inr x, s))"

definition raise :: "error \<Rightarrow> ('s, 'a) prog" where
  "raise e = (\<lambda>s. (Inl e, s))"

definition andThen :: "('s, 'a) prog \<Rightarrow> ('a \<Rightarrow> ('s, 'b) prog) \<Rightarrow> ('s, 'b) prog" where
  "andThen m f = (\<lambda>s. case m s of (Inl e, s') \<Rightarrow> (Inl e, s') | (Inr x, s') \<Rightarrow> f x s')"

text \<open>\<open>try { m } catch (error) { h error }\<close>\<close>

definition tryCatch :: "('s, 'a) prog \<Rightarrow> (error \<Rightarrow> ('s, 'a) prog) \<Rightarrow> ('s, 'a) prog" where
  "tryCatch m h = (\<lambda>s. case m s of (Inl e, s') \<Rightarrow> h e s' | (Inr x, s') \<Rightarrow> (Inr x, s'))"

text \<open>
  \<open>try { m } finally { fin }\<close>: the cleanup runs after \<open>m\<close> whatever its outcome; the
  outcome of \<open>m\<close> stands unless the cleanup itself throws.
\<close>

definition tryFinally :: "('s, 'a) prog \<Rightarrow> ('s, unit) prog \<Rightarrow> ('s, 'a) prog" where
  "tryFinally m fin =
     (\<lambda>s. case m s of (r, s') \<Rightarrow>
        (case fin s' of (Inl e, s'') \<Rightarrow> (Inl e, s'') | (Inr u, s'') \<Rightarrow> (r, s'')))"

text \<open>\<open>for (const x of xs) { await f(x) }\<close>: sequential, stopped by the first exception.\<close>

primrec forEach :: "('a \<Rightarrow> ('s, unit) prog) \<Rightarrow> 'a list \<Rightarrow> ('s, unit) prog" where
  "forEach f [] = ok ()"
| "forEach f (x # xs) = andThen (f x) (\<lambda>u. forEach f xs)"

section \<open>OCPIPushCdrsTask: the scheduled CDR push\<close>

subsection \<open>Data\<close>

text \<open>
  A stored transaction document, reduced to the fields the task reads. A field that may
  be missing from the document is an option. \<open>saveTransaction\<close> writes \<open>stop\<close> and
  \<open>ocpiData\<close> only when they are set, so for them \<open>None\<close> is the missing field; for
  \<open>ocpiData.cdr\<close> the value \<open>None\<close> stands for both a missing field and \<open>null\<close>, which
  the query \<open>'ocpiData.cdr': null\<close> and the test \<open>transaction.ocpiData?.cdr\<close> treat alike.
  The source's field \<open>id\<close> is named \<open>txID\<close> here.
\<close>

record TransactionOcpiData =
  session :: string
  cdr :: "string option"

record Transaction =
  txID :: nat
  chargeBoxID :: string
  tagID :: string
  stop :: "nat option"
  ocpiData :: "TransactionOcpiData option"

text \<open>
  A charging station: its id and, for a station mirrored from a roaming partner, the
  local entities it is attached to and the remote location id and EVSE uid it stands for.
\<close>

record ChargingStation =
  csID :: string
  companyID :: "string option"
  siteID :: "nat option"
  siteAreaID :: "nat option"
  ocpiData_cs :: "(string \<times> string) option"

datatype Tag = Tag (tagKey: string)

record Tenant =
  tenantID :: string
  activeComponents :: "string list"

text \<open>
  The two locks of the task: \<open>LockingHelper.acquireOCPIPushCpoCdrsLock(tenant.id)\<close> and
  \<open>LockingHelper.acquireOCPIPushCdrLock(tenant.id, transactionID)\<close>.
\<close>

datatype lock = OCPIPushCpoCdrsLock string | OCPIPushCdrLock string nat

text \<open>
  The calls the task makes to its collaborators that may throw: to the lock manager, to
  the storage, to the roaming finalization, and the call of
  \<open>Logging.logActionExceptionMessage\<close> in the handler of the outermost \<open>catch\<close>.
\<close>

datatype call =
    AcquireLock lock
  | ReleaseLock lock
  | AggregateTransactions
  | GetTransaction nat
  | GetChargingStation string
  | GetTag string
  | ProcessTransactionRoaming nat
  | SaveTransactionOcpiData nat
  | LogActionExceptionMessage error

text \<open>The log messages of \<open>processTenant\<close>, by their variable parts.\<close>

datatype logMessage =
    CdrsGoingToBePushed nat
  | TransactionNotFound nat
  | AlreadyHasCdrPushed nat
  | ChargingStationNotFound string
  | TagNotFound string
  | CdrPushedSuccessfully nat "string option"
  | FailedToPushCdr nat

text \<open>
  What a run leaves behind, in order: each collaborator call made (recorded when it is
  made, whether or not it then throws), the answer of the lock manager to an
  acquisition, and each log entry.
\<close>

datatype event =
    Call call
  | Acquired lock
  | Unavailable lock
  | LogInfo logMessage
  | LogError logMessage
  | LogActionException error

record world =
  transactions :: "Transaction list"
  chargingStations :: "ChargingStation list"
  tags :: "Tag list"
  locks :: "lock list"
  trace :: "event list"

text \<open>
  The environment of a run, which the task does not control: \<open>throws\<close> says, from the
  events so far and the call being made, whether that call throws and what; \<open>roaming\<close>
  is what \<open>OCPPUtils.processTransactionRoaming\<close> (not part of the two files) leaves in
  the transaction object it is given when it returns.
\<close>

record env =
  throws :: "event list \<Rightarrow> call \<Rightarrow> error option"
  roaming :: "Transaction \<Rightarrow> ChargingStation \<Rightarrow> Tag \<Rightarrow> Transaction"

subsection \<open>Collaborators\<close>

definition emit :: "event \<Rightarrow> (world, unit) prog" where
  "emit ev = (\<lambda>w. (Inr (), w\<lparr>trace := trace w @ [ev]\<rparr>))"

definition invoke :: "env \<Rightarrow> call \<Rightarrow> (world, unit) prog" where
  "invoke env c =
     (\<lambda>w. case throws env (trace w) c of
             Some e \<Rightarrow> (Inl e, w\<lparr>trace := trace w @ [Call c]\<rparr>)
           | None \<Rightarrow> (Inr (), w\<lparr>trace := trace w @ [Call c]\<rparr>))"

text \<open>
  Modelled from the spec: \<open>Logging\<close> is not part of the two files. \<open>logInfo\<close> and
  \<open>logError\<close> are called inside the run, where an exception of theirs would be caught
  like the exception of any other call: they add their entry to the log and return.
\<close>

definition logInfo :: "logMessage \<Rightarrow> (world, unit) prog" where
  "logInfo m = emit (LogInfo m)"

definition logError :: "logMessage \<Rightarrow> (world, unit) prog" where
  "logError m = emit (LogError m)"

text \<open>
  Modelled from the spec: \<open>Logging.logActionExceptionMessage\<close> is awaited in the handler
  of the outermost \<open>catch\<close>, where nothing catches an exception of its own. It is a call
  to the environment like the others: it throws when the environment says so, and adds
  its entry to the log when it returns.
\<close>

definition logActionExceptionMessage :: "env \<Rightarrow> error \<Rightarrow> (world, unit) prog" where
  "logActionExceptionMessage env e =
     andThen (invoke env (LogActionExceptionMessage e)) (\<lambda>u. emit (LogActionException e))"

text \<open>
  Modelled from the spec: \<open>LockingHelper\<close> and \<open>LockingManager\<close> are not part of the two
  files. \<open>acquire\<close> does not block: it returns the handle, or nothing when the lock is
  held (\<open>locks\<close> are the locks held by any process); \<open>release\<close> gives the lock back.
\<close>

definition acquire :: "env \<Rightarrow> lock \<Rightarrow> (world, lock option) prog" where
  "acquire env l =
     andThen (invoke env (AcquireLock l))
       (\<lambda>u w. if l \<in> set (locks w)
               then (Inr None, w\<lparr>trace := trace w @ [Unavailable l]\<rparr>)
               else (Inr (Some l), w\<lparr>locks := l # locks w, trace := trace w @ [Acquired l]\<rparr>))"

definition release :: "env \<Rightarrow> lock \<Rightarrow> (world, unit) prog" where
  "release env l =
     andThen (invoke env (ReleaseLock l))
       (\<lambda>u w. (Inr (), w\<lparr>locks := removeAll l (locks w)\<rparr>))"

definition acquireOCPIPushCpoCdrsLock :: "env \<Rightarrow> string \<Rightarrow> (world, lock option) prog" where
  "acquireOCPIPushCpoCdrsLock env tenant_id = acquire env (OCPIPushCpoCdrsLock tenant_id)"

definition acquireOCPIPushCdrLock :: "env \<Rightarrow> string \<Rightarrow> nat \<Rightarrow> (world, lock option) prog" where
  "acquireOCPIPushCdrLock env tenant_id transaction_id =
     acquire env (OCPIPushCdrLock tenant_id transaction_id)"

text \<open>
  Modelled from the spec: \<open>Utils.isTenantComponentActive\<close>, \<open>ChargingStationStorage\<close> and
  \<open>TagStorage\<close> are not part of the two files; the lookups return the stored entity with
  the given id, or nothing.
\<close>

definition isTenantComponentActive :: "Tenant \<Rightarrow> string \<Rightarrow> bool" where
  "isTenantComponentActive tenant component = (component \<in> set (activeComponents tenant))"

definition getChargingStation :: "env \<Rightarrow> string \<Rightarrow> (world, ChargingStation option) prog" where
  "getChargingStation env cid =
     andThen (invoke env (GetChargingStation cid))
       (\<lambda>u w. (Inr (find (\<lambda>c. csID c = cid) (chargingStations w)), w))"

definition getTag :: "env \<Rightarrow> string \<Rightarrow> (world, Tag option) prog" where
  "getTag env tid =
     andThen (invoke env (GetTag tid))
       (\<lambda>u w. (Inr (find (\<lambda>t. tagKey t = tid) (tags w)), w))"

definition processTransactionRoaming ::
  "env \<Rightarrow> Transaction \<Rightarrow> ChargingStation \<Rightarrow> Tag \<Rightarrow> (world, Transaction) prog" where
  "processTransactionRoaming env transaction chargingStation tag =
     andThen (invoke env (ProcessTransactionRoaming (txID transaction)))
       (\<lambda>u. ok (roaming env transaction chargingStation tag))"

subsection \<open>TransactionStorage\<close>

text \<open>
  \<open>getTransaction\<close> filters on the id and returns the document when the count is one.
\<close>

definition getTransaction :: "env \<Rightarrow> nat \<Rightarrow> (world, Transaction option) prog" where
  "getTransaction env tid =
     andThen (invoke env (GetTransaction tid))
       (\<lambda>u w. (Inr (case filter (\<lambda>t. txID t = tid) (transactions w) of
                       [t] \<Rightarrow> Some t
                     | _ \<Rightarrow> None), w))"

text \<open>
  \<open>saveTransactionOcpiData\<close>: \<open>findOneAndUpdate({_id: id}, {$set: {ocpiData}}, {upsert: false})\<close>
  replaces the \<open>ocpiData\<close> of the first document with that id and inserts nothing.
\<close>

fun setOcpiData :: "nat \<Rightarrow> TransactionOcpiData option \<Rightarrow> Transaction list \<Rightarrow> Transaction list" where
  "setOcpiData tid od [] = []"
| "setOcpiData tid od (t # ts) =
     (if txID t = tid then t\<lparr>ocpiData := od\<rparr> # ts else t # setOcpiData tid od ts)"

definition saveTransactionOcpiData ::
  "env \<Rightarrow> nat \<Rightarrow> TransactionOcpiData option \<Rightarrow> (world, unit) prog" where
  "saveTransactionOcpiData env tid od =
     andThen (invoke env (SaveTransactionOcpiData tid))
       (\<lambda>u w. (Inr (), w\<lparr>transactions := setOcpiData tid od (transactions w)\<rparr>))"

subsection \<open>processTenant\<close>

text \<open>
  The \<open>$match\<close> stage of the aggregation:
  \<open>{'stop': {$exists: true}, 'ocpiData': {$exists: true}, 'ocpiData.cdr': null}\<close>.
\<close>

definition matchFinishedWithNoCdr :: "Transaction \<Rightarrow> bool" where
  "matchFinishedWithNoCdr t =
     (stop t \<noteq> None \<and> ocpiData t \<noteq> None \<and>
      (case ocpiData t of None \<Rightarrow> True | Some od \<Rightarrow> cdr od = None))"

text \<open>The aggregation, with its \<open>$project: {_id: 1}\<close>: the ids of the matching documents.\<close>

definition aggregateTransactions :: "env \<Rightarrow> (world, nat list) prog" where
  "aggregateTransactions env =
     andThen (invoke env AggregateTransactions)
       (\<lambda>u w. (Inr (map txID (filter matchFinishedWithNoCdr (transactions w))), w))"

text \<open>
  The body of the inner \<open>try\<close> for one candidate. A \<open>continue\<close> ends the body normally.
  The last log entry reads \<open>transaction.ocpiData.cdr\<close>, which throws a \<open>TypeError\<close>
  when \<open>ocpiData\<close> is not set.
\<close>

definition pushCdrOfTransaction :: "env \<Rightarrow> nat \<Rightarrow> (world, unit) prog" where
  "pushCdrOfTransaction env transaction_id =
     andThen (getTransaction env transaction_id) (\<lambda>found.
       case found of
         None \<Rightarrow> logError (TransactionNotFound transaction_id)
       | Some transaction \<Rightarrow>
           if (case ocpiData transaction of None \<Rightarrow> False | Some od \<Rightarrow> cdr od \<noteq> None)
           then logInfo (AlreadyHasCdrPushed transaction_id)
           else
             andThen (getChargingStation env (chargeBoxID transaction)) (\<lambda>cs.
               case cs of
                 None \<Rightarrow> logError (ChargingStationNotFound (chargeBoxID transaction))
               | Some chargingStation \<Rightarrow>
                   andThen (getTag env (tagID transaction)) (\<lambda>tg.
                     case tg of
                       None \<Rightarrow> logError (TagNotFound (tagID transaction))
                     | Some tag \<Rightarrow>
                         andThen (processTransactionRoaming env transaction chargingStation tag)
                           (\<lambda>transaction'.
                             andThen (saveTransactionOcpiData env (txID transaction')
                                        (ocpiData transaction'))
                               (\<lambda>u. case ocpiData transaction' of
                                       None \<Rightarrow> raise (Failure ''TypeError'')
                                     | Some od \<Rightarrow>
                                         logInfo (CdrPushedSuccessfully (txID transaction')
                                                    (cdr od)))))))"

text \<open>One round of the \<open>for\<close> loop over the candidates.\<close>

definition pushCdr :: "env \<Rightarrow> Tenant \<Rightarrow> nat \<Rightarrow> (world, unit) prog" where
  "pushCdr env tenant transaction_id =
     andThen (acquireOCPIPushCdrLock env (tenantID tenant) transaction_id) (\<lambda>ocpiTransactionLock.
       case ocpiTransactionLock of
         None \<Rightarrow> ok ()
       | Some l \<Rightarrow>
           tryFinally
             (tryCatch (pushCdrOfTransaction env transaction_id)
                (\<lambda>error. logError (FailedToPushCdr transaction_id)))
             (release env l))"

text \<open>The body of the outer \<open>try ... finally\<close>, run while the tenant-wide lock is held.\<close>

definition pushCdrs :: "env \<Rightarrow> Tenant \<Rightarrow> (world, unit) prog" where
  "pushCdrs env tenant =
     andThen (aggregateTransactions env) (\<lambda>transactionsMDB.
       if transactionsMDB \<noteq> []
       then andThen (logInfo (CdrsGoingToBePushed (length transactionsMDB)))
              (\<lambda>u. forEach (pushCdr env tenant) transactionsMDB)
       else ok ())"

text \<open>The body of the outermost \<open>try\<close> of \<open>processTenant\<close>.\<close>

definition tryProcessTenant :: "env \<Rightarrow> Tenant \<Rightarrow> (world, unit) prog" where
  "tryProcessTenant env tenant =
     (if isTenantComponentActive tenant ''ocpi''
      then
        andThen (acquireOCPIPushCpoCdrsLock env (tenantID tenant)) (\<lambda>ocpiLock.
          case ocpiLock of
            None \<Rightarrow> ok ()
          | Some l \<Rightarrow> tryFinally (pushCdrs env tenant) (release env l))
      else ok ())"

definition processTenant :: "env \<Rightarrow> Tenant \<Rightarrow> (world, unit) prog" where
  "processTenant env tenant =
     tryCatch (tryProcessTenant env tenant) (\<lambda>error. logActionExceptionMessage env error)"

section \<open>EmspOCPIClient: the synchronization flows\<close>

subsection \<open>Data\<close>

datatype OCPIRole = CPO | EMSP

fun roleName :: "OCPIRole \<Rightarrow> string" where
  "roleName CPO = ''CPO''"
| "roleName EMSP = ''EMSP''"

text \<open>The summary a run of \<open>pushTokens\<close> leaves on the endpoint (\<open>lastPatchJobResult\<close>).\<close>

record PatchJobResult =
  successNbr :: nat
  failureNbr :: nat
  totalNbr :: nat
  tokenIDsInFailure :: "string list"

record OCPIEndpoint =
  endpointID :: string
  endpointName :: string
  role :: OCPIRole
  token :: string
  countryCode :: string
  partyId :: string
  lastPatchJobOn :: "nat option"
  lastPatchJobResult :: "PatchJobResult option"

text \<open>
  \<open>OCPIResult\<close>, the summary a flow returns. The pull flows build it without the field
  \<open>objectIDsInFailure\<close>, which is \<open>None\<close> then.
\<close>

record OCPIResult =
  success :: nat
  failure :: nat
  total :: nat
  logs :: "string list"
  objectIDsInFailure :: "string list option"

text \<open>
  The remote resources, reduced to what the flows read. \<open>operatorName\<close> is
  \<open>location.operator?.name\<close>; an EVSE's \<open>uid\<close> may be missing.
\<close>

datatype OCPIEvseStatus =
  AVAILABLE | BLOCKED | CHARGING | INOPERATIVE | OUTOFORDER | PLANNED | REMOVED | RESERVED | UNKNOWN

record OCPIEvse =
  uid :: "string option"
  evse_id :: string
  status :: OCPIEvseStatus

record OCPILocation =
  locationID :: string
  locationName :: string
  operatorName :: "string option"
  evses :: "OCPIEvse list"

datatype OCPISession = OCPISession (sessionID: string)

datatype OCPICdr = OCPICdr (cdrID: string)

datatype OCPIToken = OCPIToken (tokenUid: string)

text \<open>
  A page of a paginated collection: \<open>response.data.data\<close>, and what
  \<open>OCPIUtils.getNextUrl\<close> (not part of the two files) reads from \<open>response.headers.link\<close>.
\<close>

record 'a response =
  data :: "'a list"
  nextUrl :: "string option"

text \<open>
  The local mirror entities, without the address and the dates copied into them. The
  ids of sites and site areas are given by the storage when it creates them.
\<close>

record Company =
  company_id :: string
  company_name :: string

record Site =
  site_id :: nat
  site_name :: string
  site_companyID :: string
  site_issuer :: bool

record SiteArea =
  area_id :: nat
  area_name :: string
  area_siteID :: nat
  area_issuer :: bool

text \<open>
  The storage of one tenant as the client sees it, and \<open>existingSites\<close>: the array
  \<open>sites.result\<close> that \<open>pullLocations\<close> reads once per run and \<open>processLocation\<close>
  extends in place.
\<close>

record storage =
  companies :: "Company list"
  sites :: "Site list"
  siteAreas :: "SiteArea list"
  stations :: "ChargingStation list"
  nextID :: nat
  existingSites :: "Site list"
  localTokens :: "OCPIToken list"
  ocpiEndpoints :: "OCPIEndpoint list"

text \<open>
  What the client depends on and the two files do not contain: the roaming partner
  (its answer to a GET of a page, by URL, and to the PUT of a token), the outcome of
  \<open>OCPIUtilsService.updateTransaction\<close> and \<open>OCPIUtilsService.processCdr\<close> for an item
  (\<open>Some e\<close> when it throws \<open>e\<close>), \<open>OCPIUtilsService.convertEvseToChargingStation\<close>,
  the base class's \<open>getEndpointUrl\<close>, \<open>getLocalCountryCode\<close> and \<open>getLocalPartyID\<close>,
  \<open>OCPIUtils.buildOperatorName\<close>, the constants \<open>Constants.OCPI_SEPARATOR\<close> and
  \<open>Constants.DB_RECORD_COUNT_DEFAULT\<close>, the formatted start of the day \<open>n\<close> days ago
  and the time of the run.
\<close>

record partner =
  getLocations :: "string \<Rightarrow> error + OCPILocation response"
  getSessions :: "string \<Rightarrow> error + OCPISession response"
  getCdrs :: "string \<Rightarrow> error + OCPICdr response"
  putToken :: "string \<Rightarrow> OCPIToken \<Rightarrow> error option"
  updateTransaction :: "OCPISession \<Rightarrow> error option"
  processCdr :: "OCPICdr \<Rightarrow> error option"
  convertEvseToChargingStation :: "OCPIEvse \<Rightarrow> OCPILocation \<Rightarrow> ChargingStation"
  getEndpointUrl :: "string \<Rightarrow> string"
  getLocalCountryCode :: string
  getLocalPartyID :: string
  buildOperatorName :: "string \<Rightarrow> string \<Rightarrow> string"
  OCPI_SEPARATOR :: string
  DB_RECORD_COUNT_DEFAULT :: nat
  daysAgo :: "nat \<Rightarrow> string"
  now :: nat

subsection \<open>The constructor\<close>

text \<open>
  The constructor calls the base class's constructor (not part of the two files, a
  parameter here: it returns the object or throws) with the role \<open>EMSP\<close>, then checks
  the endpoint's role.
\<close>

definition newEmspOCPIClient ::
  "(Tenant \<Rightarrow> 'cfg \<Rightarrow> OCPIEndpoint \<Rightarrow> OCPIRole \<Rightarrow> error + 'obj) \<Rightarrow>
   Tenant \<Rightarrow> 'cfg \<Rightarrow> OCPIEndpoint \<Rightarrow> error + 'obj" where
  "newEmspOCPIClient super tenant settings ocpiEndpoint =
     (case super tenant settings ocpiEndpoint EMSP of
        Inl e \<Rightarrow> Inl e
      | Inr this \<Rightarrow>
          if role ocpiEndpoint \<noteq> EMSP
          then Inl (BackendError (''EmspOCPIClient requires OCPI Endpoint with role '' @ roleName EMSP))
          else Inr this)"

subsection \<open>Storage\<close>

text \<open>
  Modelled from the spec: \<open>CompanyStorage\<close>, \<open>SiteStorage\<close>, \<open>SiteAreaStorage\<close>,
  \<open>ChargingStationStorage\<close>, \<open>OCPIEndpointStorage\<close> and \<open>OCPIUtilsService.getTokens\<close> are
  not part of the two files. They fetch by the given filter, create under a new id,
  replace by id and delete by id, and do not throw.
\<close>

definition getCompany :: "string \<Rightarrow> storage \<Rightarrow> Company option" where
  "getCompany cid st = find (\<lambda>c. company_id c = cid) (companies st)"

definition saveCompany :: "Company \<Rightarrow> storage \<Rightarrow> storage" where
  "saveCompany c st =
     st\<lparr>companies := filter (\<lambda>c'. company_id c' \<noteq> company_id c) (companies st) @ [c]\<rparr>"

definition getSites :: "string \<Rightarrow> storage \<Rightarrow> Site list" where
  "getSites cid st = filter (\<lambda>s. site_companyID s = cid) (sites st)"

text \<open>\<open>saveSite\<close> of a site that has no id yet: the new id is returned.\<close>

definition saveSite :: "string \<Rightarrow> string \<Rightarrow> bool \<Rightarrow> storage \<Rightarrow> nat \<times> storage" where
  "saveSite name cid issuer st =
     (nextID st,
      st\<lparr>sites := sites st @ [\<lparr>site_id = nextID st, site_name = name,
                                site_companyID = cid, site_issuer = issuer\<rparr>],
         nextID := Suc (nextID st)\<rparr>)"

text \<open>
  \<open>getSiteAreas\<close> with \<open>{siteIDs, name, issuer, withSite: true}\<close>: the matching site
  areas, each with its site.
\<close>

definition getSiteAreas ::
  "nat list \<Rightarrow> string \<Rightarrow> bool \<Rightarrow> storage \<Rightarrow> (SiteArea \<times> Site option) list" where
  "getSiteAreas siteIDs name issuer st =
     map (\<lambda>a. (a, find (\<lambda>s. site_id s = area_siteID a) (sites st)))
       (filter (\<lambda>a. area_siteID a \<in> set siteIDs \<and> area_name a = name \<and> area_issuer a = issuer)
          (siteAreas st))"

definition saveSiteArea :: "string \<Rightarrow> nat \<Rightarrow> bool \<Rightarrow> storage \<Rightarrow> nat \<times> storage" where
  "saveSiteArea name sid issuer st =
     (nextID st,
      st\<lparr>siteAreas := siteAreas st @ [\<lparr>area_id = nextID st, area_name = name,
                                        area_siteID = sid, area_issuer = issuer\<rparr>],
         nextID := Suc (nextID st)\<rparr>)"

definition getChargingStationByOcpiLocationUid ::
  "string \<Rightarrow> string \<Rightarrow> storage \<Rightarrow> ChargingStation option" where
  "getChargingStationByOcpiLocationUid lid evseUid st =
     find (\<lambda>c. ocpiData_cs c = Some (lid, evseUid)) (stations st)"

definition deleteChargingStation :: "string \<Rightarrow> storage \<Rightarrow> storage" where
  "deleteChargingStation cid st = st\<lparr>stations := filter (\<lambda>c. csID c \<noteq> cid) (stations st)\<rparr>"

text \<open>\<open>saveChargingStation\<close> creates the station or replaces the one with its id.\<close>

definition saveChargingStation :: "ChargingStation \<Rightarrow> storage \<Rightarrow> storage" where
  "saveChargingStation cs st =
     st\<lparr>stations :=
          (if \<exists>c \<in> set (stations st). csID c = csID cs
           then map (\<lambda>c. if csID c = csID cs then cs else c) (stations st)
           else stations st @ [cs])\<rparr>"

definition saveChargingStationOcpiData ::
  "string \<Rightarrow> (string \<times> string) option \<Rightarrow> storage \<Rightarrow> storage" where
  "saveChargingStationOcpiData cid od st =
     st\<lparr>stations := map (\<lambda>c. if csID c = cid then c\<lparr>ocpiData_cs := od\<rparr> else c) (stations st)\<rparr>"

definition saveOcpiEndpoint :: "OCPIEndpoint \<Rightarrow> storage \<Rightarrow> storage" where
  "saveOcpiEndpoint ep st =
     st\<lparr>ocpiEndpoints := filter (\<lambda>e. endpointID e \<noteq> endpointID ep) (ocpiEndpoints st) @ [ep]\<rparr>"

definition getTokens :: "nat \<Rightarrow> nat \<Rightarrow> storage \<Rightarrow> OCPIToken list" where
  "getTokens limit skip st = take limit (drop skip (localTokens st))"

subsection \<open>processLocation\<close>

definition quoted :: "string \<Rightarrow> string" where
  "quoted s = [CHR 0x27] @ s @ [CHR 0x27]"

text \<open>
  The site of a location: the first site of \<open>existingSites\<close> with the site name, or a
  new site, saved and pushed to \<open>existingSites\<close>.
\<close>

definition siteNameOf :: "partner \<Rightarrow> OCPIEndpoint \<Rightarrow> OCPILocation \<Rightarrow> string" where
  "siteNameOf p ep location =
     (case operatorName location of
        Some name \<Rightarrow> name
      | None \<Rightarrow> buildOperatorName p (countryCode ep) (partyId ep))"

definition handleSite ::
  "partner \<Rightarrow> OCPIEndpoint \<Rightarrow> OCPILocation \<Rightarrow> Company \<Rightarrow> storage \<Rightarrow> Site \<times> storage" where
  "handleSite p ep location company st =
     (case find (\<lambda>existingSite. site_name existingSite = siteNameOf p ep location)
             (existingSites st) of
        Some site \<Rightarrow> (site, st)
      | None \<Rightarrow>
          (case saveSite (siteNameOf p ep location) (company_id company) False st of
             (new_id, st') \<Rightarrow>
               (\<lparr>site_id = new_id, site_name = siteNameOf p ep location,
                 site_companyID = company_id company, site_issuer = False\<rparr>,
                st'\<lparr>existingSites := existingSites st' @
                      [\<lparr>site_id = new_id, site_name = siteNameOf p ep location,
                        site_companyID = company_id company, site_issuer = False\<rparr>]\<rparr>)))"

text \<open>
  The site area of a location: the first one the storage returns for the site and the
  name \<open>site.name + OCPI_SEPARATOR + location.id\<close>, or a new one. A site area read from
  the storage comes with its site, a new one has none.
\<close>

definition siteAreaNameOf :: "partner \<Rightarrow> Site \<Rightarrow> OCPILocation \<Rightarrow> string" where
  "siteAreaNameOf p site location = site_name site @ OCPI_SEPARATOR p @ locationID location"

definition handleSiteArea ::
  "partner \<Rightarrow> OCPILocation \<Rightarrow> Site \<Rightarrow> storage \<Rightarrow> (SiteArea \<times> Site option) \<times> storage" where
  "handleSiteArea p location site st =
     (case getSiteAreas [site_id site] (siteAreaNameOf p site location) False st of
        siteArea # others \<Rightarrow> (siteArea, st)
      | [] \<Rightarrow>
          (case saveSiteArea (siteAreaNameOf p site location) (site_id site) False st of
             (new_id, st') \<Rightarrow>
               ((\<lparr>area_id = new_id, area_name = siteAreaNameOf p site location,
                  area_siteID = site_id site, area_issuer = False\<rparr>, None), st')))"

text \<open>One round of the loop over the EVSEs of a location.\<close>

definition processEvse ::
  "partner \<Rightarrow> OCPILocation \<Rightarrow> SiteArea \<times> Site option \<Rightarrow> OCPIEvse \<Rightarrow> (storage, unit) prog" where
  "processEvse p location siteArea evse =
     (case uid evse of
        None \<Rightarrow>
          raise (BackendError (''Missing Charging Station EVSE UID in Location ''
                   @ quoted (locationName location) @ '' with ID '' @ quoted (locationID location)))
      | Some evseUid \<Rightarrow>
          if evseUid = []
          then raise (BackendError (''Missing Charging Station EVSE UID in Location ''
                   @ quoted (locationName location) @ '' with ID '' @ quoted (locationID location)))
          else if status evse = REMOVED
          then (\<lambda>st. case getChargingStationByOcpiLocationUid (locationID location) evseUid st of
                        Some currentChargingStation \<Rightarrow>
                          (Inr (), deleteChargingStation (csID currentChargingStation) st)
                      | None \<Rightarrow> (Inr (), st))
          else (\<lambda>st. (Inr (),
                  saveChargingStationOcpiData
                    (csID (convertEvseToChargingStation p evse location))
                    (ocpiData_cs (convertEvseToChargingStation p evse location))
                    (saveChargingStation
                       ((convertEvseToChargingStation p evse location)
                          \<lparr>companyID := map_option site_companyID (snd siteArea),
                           siteID := Some (area_siteID (fst siteArea)),
                           siteAreaID := Some (area_id (fst siteArea))\<rparr>)
                       st))))"

definition processLocation ::
  "partner \<Rightarrow> OCPIEndpoint \<Rightarrow> OCPILocation \<Rightarrow> Company \<Rightarrow> (storage, unit) prog" where
  "processLocation p ep location company =
     (\<lambda>st. case handleSite p ep location company st of
              (site, st1) \<Rightarrow>
                (case handleSiteArea p location site st1 of
                   (siteArea, st2) \<Rightarrow>
                     forEach (processEvse p location siteArea) (evses location) st2))"

subsection \<open>Pagination\<close>

text \<open>
  The \<open>do ... while (nextResult)\<close> loop that the three pull flows share: fetch the page at
  the URL (an exception of the GET leaves the flow), hand each item of the page to the
  worker, then go on with the next URL if there is one, it is not empty and it is not the
  URL just fetched. The loop need not end, so it runs on fuel and \<open>None\<close> is "out of
  fuel". The list of the pages fetched so far is kept beside the state. A page without
  items goes through the worker loop unchanged, as the test \<open>!Utils.isEmptyArray\<close> has it.
\<close>

fun pullPages ::
  "(string \<Rightarrow> error + 'a response) \<Rightarrow> ('a \<Rightarrow> 's \<Rightarrow> 's) \<Rightarrow> nat \<Rightarrow> string \<Rightarrow> 's \<Rightarrow> 'a list list \<Rightarrow>
   ((error + unit) \<times> 's \<times> 'a list list) option" where
  "pullPages get worker 0 url s pages = None"
| "pullPages get worker (Suc fuel) url s pages =
     (case get url of
        Inl e \<Rightarrow> Some (Inl e, s, pages)
      | Inr response \<Rightarrow>
          (case nextUrl response of
             None \<Rightarrow> Some (Inr (), fold worker (data response) s, pages @ [data response])
           | Some link \<Rightarrow>
               if link \<noteq> [] \<and> link \<noteq> url
               then pullPages get worker fuel link (fold worker (data response) s)
                      (pages @ [data response])
               else Some (Inr (), fold worker (data response) s, pages @ [data response])))"

text \<open>
  The pagination as the specification words it: the pages from a URL are the page
  fetched there alone when its response carries no next link (or an empty one, or the URL
  just fetched), and that page followed by the pages from the next link otherwise.
\<close>

inductive pagesFrom :: "(string \<Rightarrow> error + 'a response) \<Rightarrow> string \<Rightarrow> 'a list list \<Rightarrow> bool" where
  lastPage: "get url = Inr response \<Longrightarrow> nextUrl response = None \<Longrightarrow>
     pagesFrom get url [data response]"
| emptyLink: "get url = Inr response \<Longrightarrow> nextUrl response = Some [] \<Longrightarrow>
     pagesFrom get url [data response]"
| sameLink: "get url = Inr response \<Longrightarrow> nextUrl response = Some url \<Longrightarrow>
     pagesFrom get url [data response]"
| nextPage: "get url = Inr response \<Longrightarrow> nextUrl response = Some link \<Longrightarrow>
     link \<noteq> [] \<Longrightarrow> link \<noteq> url \<Longrightarrow> pagesFrom get link pages \<Longrightarrow>
     pagesFrom get url (data response # pages)"

subsection \<open>The pull flows\<close>

definition newResult :: OCPIResult where
  "newResult = \<lparr>success = 0, failure = 0, total = 0, logs = [], objectIDsInFailure = None\<rparr>"

definition locationsUrl :: "partner \<Rightarrow> bool \<Rightarrow> string" where
  "locationsUrl p partial =
     (if partial
      then getEndpointUrl p ''locations'' @ ''?date_from='' @ daysAgo p 1 @ ''&limit=5''
      else getEndpointUrl p ''locations'' @ ''?limit=5'')"

definition checkAndGetCompany :: "OCPIEndpoint \<Rightarrow> storage \<Rightarrow> Company \<times> storage" where
  "checkAndGetCompany ep st =
     (case getCompany (endpointID ep) st of
        Some company \<Rightarrow> (company, st)
      | None \<Rightarrow>
          (\<lparr>company_id = endpointID ep, company_name = endpointName ep\<rparr>,
           saveCompany \<lparr>company_id = endpointID ep, company_name = endpointName ep\<rparr> st))"

text \<open>
  The \<open>try ... catch\<close> around one location in \<open>pullLocations\<close>; the locations of a
  page are processed one after the other.
\<close>

definition pullLocation ::
  "partner \<Rightarrow> OCPIEndpoint \<Rightarrow> Company \<Rightarrow> OCPILocation \<Rightarrow> OCPIResult \<times> storage \<Rightarrow>
   OCPIResult \<times> storage" where
  "pullLocation p ep company location s =
     (case processLocation p ep location company (snd s) of
        (Inr u, st') \<Rightarrow> ((fst s)\<lparr>success := success (fst s) + 1\<rparr>, st')
      | (Inl e, st') \<Rightarrow>
          ((fst s)\<lparr>failure := failure (fst s) + 1,
                   logs := logs (fst s) @
                     [''Failed to update Location '' @ quoted (locationName location) @ '': ''
                        @ message e]\<rparr>, st'))"

text \<open>
  \<open>pullLocations\<close> returns the summary, or throws; beside the outcome stand the storage
  and the pages fetched.
\<close>

definition pullLocations ::
  "partner \<Rightarrow> OCPIEndpoint \<Rightarrow> bool \<Rightarrow> nat \<Rightarrow> storage \<Rightarrow>
   ((error + OCPIResult) \<times> storage \<times> OCPILocation list list) option" where
  "pullLocations p ep partial fuel st =
     (case checkAndGetCompany ep st of
        (company, st1) \<Rightarrow>
          (case pullPages (getLocations p) (pullLocation p ep company) fuel (locationsUrl p partial)
                  (newResult, st1\<lparr>existingSites := getSites (company_id company) st1\<rparr>) [] of
             None \<Rightarrow> None
           | Some (Inl e, s, pages) \<Rightarrow> Some (Inl e, snd s, pages)
           | Some (Inr u, s, pages) \<Rightarrow> Some (Inr (fst s), snd s, pages)))"

definition sessionsUrl :: "partner \<Rightarrow> string" where
  "sessionsUrl p = getEndpointUrl p ''sessions'' @ ''?date_from='' @ daysAgo p 2 @ ''&limit=10''"

text \<open>
  The worker that \<open>Promise.map\<close> runs for one session (and below for one CDR, for one
  token). \<open>Promise.map\<close> starts the workers of a page, a bounded number at a time, and
  waits for all of them; a worker catches every exception of its item and only adds to
  the counters and the log of the summary, so the counters do not depend on the order
  in which the workers end. Here the workers run in the order of the page.
\<close>

definition pullSession :: "partner \<Rightarrow> OCPISession \<Rightarrow> OCPIResult \<Rightarrow> OCPIResult" where
  "pullSession p session_item result =
     (case updateTransaction p session_item of
        None \<Rightarrow> result\<lparr>success := success result + 1\<rparr>
      | Some e \<Rightarrow>
          result\<lparr>failure := failure result + 1,
                 logs := logs result @
                   [''Failed to update OCPI Session ID '' @ quoted (sessionID session_item) @ '': ''
                      @ message e]\<rparr>)"

definition pullSessions ::
  "partner \<Rightarrow> nat \<Rightarrow> ((error + OCPIResult) \<times> OCPISession list list) option" where
  "pullSessions p fuel =
     (case pullPages (getSessions p) (pullSession p) fuel (sessionsUrl p) newResult [] of
        None \<Rightarrow> None
      | Some (Inl e, result, pages) \<Rightarrow> Some (Inl e, pages)
      | Some (Inr u, result, pages) \<Rightarrow>
          Some (Inr (result\<lparr>total := failure result + success result\<rparr>), pages))"

definition cdrsUrl :: "partner \<Rightarrow> string" where
  "cdrsUrl p = getEndpointUrl p ''cdrs'' @ ''?date_from='' @ daysAgo p 2 @ ''&limit=10''"

definition pullCdr :: "partner \<Rightarrow> OCPICdr \<Rightarrow> OCPIResult \<Rightarrow> OCPIResult" where
  "pullCdr p cdr_item result =
     (case processCdr p cdr_item of
        None \<Rightarrow> result\<lparr>success := success result + 1\<rparr>
      | Some e \<Rightarrow>
          result\<lparr>failure := failure result + 1,
                 logs := logs result @
                   [''Failed to update CDR ID '' @ quoted (cdrID cdr_item) @ '': '' @ message e]\<rparr>)"

definition pullCdrs ::
  "partner \<Rightarrow> nat \<Rightarrow> ((error + OCPIResult) \<times> OCPICdr list list) option" where
  "pullCdrs p fuel =
     (case pullPages (getCdrs p) (pullCdr p) fuel (cdrsUrl p) newResult [] of
        None \<Rightarrow> None
      | Some (Inl e, result, pages) \<Rightarrow> Some (Inl e, pages)
      | Some (Inr u, result, pages) \<Rightarrow>
          Some (Inr (result\<lparr>total := failure result + success result\<rparr>), pages))"

subsection \<open>pushTokens\<close>

definition pushToken :: "partner \<Rightarrow> OCPIToken \<Rightarrow> error option" where
  "pushToken p tk =
     putToken p (getEndpointUrl p ''tokens'' @ ''/'' @ getLocalCountryCode p @ ''/''
                   @ getLocalPartyID p @ ''/'' @ tokenUid tk) tk"

text \<open>The worker that \<open>Promise.map\<close> runs for one token.\<close>

definition pushTokenWorker :: "partner \<Rightarrow> OCPIToken \<Rightarrow> OCPIResult \<Rightarrow> OCPIResult" where
  "pushTokenWorker p tk result =
     (case pushToken p tk of
        None \<Rightarrow> result\<lparr>total := total result + 1, success := success result + 1\<rparr>
      | Some e \<Rightarrow>
          result\<lparr>total := total result + 1,
                 failure := failure result + 1,
                 objectIDsInFailure := map_option (\<lambda>ids. ids @ [tokenUid tk]) (objectIDsInFailure result),
                 logs := logs result @
                   [''Failed to update Token ID '' @ quoted (tokenUid tk) @ '': '' @ message e]\<rparr>)"

text \<open>
  The \<open>do ... while\<close> over the pages of local tokens: it ends with the first empty page.
\<close>

function pushTokensLoop :: "partner \<Rightarrow> storage \<Rightarrow> nat \<Rightarrow> OCPIResult \<Rightarrow> OCPIResult" where
  "pushTokensLoop p st currentSkip result =
     (if getTokens (DB_RECORD_COUNT_DEFAULT p) currentSkip st \<noteq> []
      then pushTokensLoop p st (currentSkip + DB_RECORD_COUNT_DEFAULT p)
             (fold (pushTokenWorker p) (getTokens (DB_RECORD_COUNT_DEFAULT p) currentSkip st) result)
      else result)"
  by pat_completeness auto
termination
  by (relation "measure (\<lambda>(p, st, currentSkip, result). length (localTokens st) - currentSkip)")
     (auto simp: getTokens_def)

declare pushTokensLoop.simps [simp del]

text \<open>\<open>_.uniq\<close>: the first occurrence of each element, in order.\<close>

fun uniq :: "'a list \<Rightarrow> 'a list" where
  "uniq [] = []"
| "uniq (x # xs) = x # uniq (removeAll x xs)"

text \<open>
  \<open>pushTokens\<close> returns the summary; beside it stand the endpoint object as the run
  leaves it and the storage, where the endpoint has been saved.
\<close>

definition pushTokens ::
  "partner \<Rightarrow> OCPIEndpoint \<Rightarrow> storage \<Rightarrow> OCPIResult \<times> OCPIEndpoint \<times> storage" where
  "pushTokens p ep st =
     (case pushTokensLoop p st 0
             \<lparr>success = 0, failure = 0, total = 0, logs = [], objectIDsInFailure = Some []\<rparr> of
        result \<Rightarrow>
          (case ep\<lparr>lastPatchJobOn := Some (now p),
                   lastPatchJobResult := Some
                     \<lparr>successNbr = success result, failureNbr = failure result,
                      totalNbr = total result,
                      tokenIDsInFailure =
                        uniq (case objectIDsInFailure result of None \<Rightarrow> [] | Some ids \<Rightarrow> ids)\<rparr>\<rparr> of
             ep' \<Rightarrow> (result, ep', saveOcpiEndpoint ep' st)))"

section \<open>Notions used in the statements\<close>

text \<open>The events that a program adds to the log when it runs from \<open>w\<close> to \<open>w'\<close>.\<close>

definition runEvents :: "world \<Rightarrow> world \<Rightarrow> event list" where
  "runEvents w w' = drop (length (trace w)) (trace w')"

text \<open>
  \<open>emits P m\<close>: from any state, \<open>m\<close> only appends events to the log, and the events it
  appends satisfy \<open>P\<close>. It composes for properties that hold of the empty list and of
  the concatenation of two lists that have them.
\<close>

definition appendClosed :: "(event list \<Rightarrow> bool) \<Rightarrow> bool" where
  "appendClosed P = (P [] \<and> (\<forall>a b. P a \<and> P b \<longrightarrow> P (a @ b)))"

definition emits :: "(event list \<Rightarrow> bool) \<Rightarrow> (world, 'a) prog \<Rightarrow> bool" where
  "emits P m = (\<forall>w. \<exists>es. trace (snd (m w)) = trace w @ es \<and> P es)"

text \<open>Every lock is released as many times as it was acquired.\<close>

definition balancedEvents :: "event list \<Rightarrow> bool" where
  "balancedEvents es =
     (\<forall>k. count_list es (Call (ReleaseLock k)) = count_list es (Acquired k))"

text \<open>
  The state right after a lock has been acquired, and the \<open>try ... catch\<close> of a round
  of the candidate loop, which is the work that the \<open>finally\<close> of the round follows.
\<close>

definition afterAcquire :: "lock \<Rightarrow> world \<Rightarrow> world" where
  "afterAcquire l w =
     w\<lparr>locks := l # locks w, trace := trace w @ [Call (AcquireLock l), Acquired l]\<rparr>"

definition workOfRound :: "env \<Rightarrow> nat \<Rightarrow> (world, unit) prog" where
  "workOfRound env transaction_id =
     tryCatch (pushCdrOfTransaction env transaction_id)
       (\<lambda>error. logError (FailedToPushCdr transaction_id))"

text \<open>
  A list of events without any acquisition or release of a lock, and one without any
  acquisition or release of a tenant-wide lock.
\<close>

definition noLockEvents :: "event list \<Rightarrow> bool" where
  "noLockEvents es =
     (\<forall>k. Call (AcquireLock k) \<notin> set es \<and> Call (ReleaseLock k) \<notin> set es
          \<and> Acquired k \<notin> set es)"

definition noTenantLockEvents :: "event list \<Rightarrow> bool" where
  "noTenantLockEvents es =
     (\<forall>tn. Call (AcquireLock (OCPIPushCpoCdrsLock tn)) \<notin> set es
           \<and> Call (ReleaseLock (OCPIPushCpoCdrsLock tn)) \<notin> set es
           \<and> Acquired (OCPIPushCpoCdrsLock tn) \<notin> set es)"

text \<open>
  The ids that the query of the task matches in a state, and the property of a list of
  events that rounds of the candidate loop (each starts with the acquisition of the
  transaction's lock) are started for transactions of a given set only.
\<close>

definition candidateIDs :: "world \<Rightarrow> nat list" where
  "candidateIDs w = map txID (filter matchFinishedWithNoCdr (transactions w))"

definition roundsOnly :: "nat set \<Rightarrow> event list \<Rightarrow> bool" where
  "roundsOnly S es =
     (\<forall>tn tid. Call (AcquireLock (OCPIPushCdrLock tn tid)) \<in> set es \<longrightarrow> tid \<in> S)"


subsection \<open>Example inputs\<close>

definition exampleTenant :: Tenant where
  "exampleTenant = \<lparr>tenantID = ''tenant1'', activeComponents = [''ocpi'']\<rparr>"

text \<open>An environment in which no call throws and the roaming finalization attaches a CDR.\<close>

definition exampleEnv :: env where
  "exampleEnv =
     \<lparr>throws = (\<lambda>es c. None),
      roaming = (\<lambda>t c g. t\<lparr>ocpiData := Some \<lparr>session = ''S'', cdr = Some ''CDR''\<rparr>\<rparr>)\<rparr>"

text \<open>
  Three environments with failures: the roaming finalization throws; the aggregation
  throws; the aggregation and the log call of the outermost handler both throw.
\<close>

definition roamingFailsEnv :: env where
  "roamingFailsEnv =
     \<lparr>throws = (\<lambda>es c. case c of
                  ProcessTransactionRoaming n \<Rightarrow> Some (Failure ''partner unreachable'')
                | _ \<Rightarrow> None),
      roaming = (\<lambda>t c g. t)\<rparr>"

definition aggregateFailsEnv :: env where
  "aggregateFailsEnv =
     \<lparr>throws = (\<lambda>es c. case c of
                  AggregateTransactions \<Rightarrow> Some (Failure ''database down'')
                | _ \<Rightarrow> None),
      roaming = (\<lambda>t c g. t)\<rparr>"

definition databaseDownEnv :: env where
  "databaseDownEnv =
     \<lparr>throws = (\<lambda>es c. case c of
                  AggregateTransactions \<Rightarrow> Some (Failure ''database down'')
                | LogActionExceptionMessage e \<Rightarrow> Some (Failure ''log storage down'')
                | _ \<Rightarrow> None),
      roaming = (\<lambda>t c g. t)\<rparr>"

text \<open>
  Four stored transactions: 1 is finished with roaming data and no CDR, 2 has its CDR,
  3 is not finished, 4 has no roaming data.
\<close>

definition tx1 :: Transaction where
  "tx1 = \<lparr>txID = 1, chargeBoxID = ''CS1'', tagID = ''TAG1'', stop = Some 100,
          ocpiData = Some \<lparr>session = ''S1'', cdr = None\<rparr>\<rparr>"

definition tx2 :: Transaction where
  "tx2 = \<lparr>txID = 2, chargeBoxID = ''CS1'', tagID = ''TAG1'', stop = Some 200,
          ocpiData = Some \<lparr>session = ''S2'', cdr = Some ''CDR2''\<rparr>\<rparr>"

definition tx3 :: Transaction where
  "tx3 = \<lparr>txID = 3, chargeBoxID = ''CS1'', tagID = ''TAG1'', stop = None,
          ocpiData = Some \<lparr>session = ''S3'', cdr = None\<rparr>\<rparr>"

definition tx4 :: Transaction where
  "tx4 = \<lparr>txID = 4, chargeBoxID = ''CS1'', tagID = ''TAG1'', stop = Some 400, ocpiData = None\<rparr>"

definition exampleWorld :: world where
  "exampleWorld =
     \<lparr>transactions = [tx1, tx2, tx3, tx4],
      chargingStations = [\<lparr>csID = ''CS1'', companyID = None, siteID = None, siteAreaID = None,
                           ocpiData_cs = None\<rparr>],
      tags = [Tag ''TAG1''], locks = [], trace = []\<rparr>"

text \<open>
  A roaming partner: three pages of sessions (the update of session \<open>S2\<close> throws), a
  page of CDRs whose next link is the URL of the page itself, one page of locations, and
  a PUT that fails for the token \<open>T2\<close>.
\<close>

definition exampleLocation :: OCPILocation where
  "exampleLocation =
     \<lparr>locationID = ''LOC1'', locationName = ''Station'', operatorName = Some ''Operator'',
      evses = [\<lparr>uid = Some ''U0'', evse_id = ''E0'', status = AVAILABLE\<rparr>,
               \<lparr>uid = None, evse_id = ''E1'', status = AVAILABLE\<rparr>,
               \<lparr>uid = Some ''U2'', evse_id = ''E2'', status = AVAILABLE\<rparr>]\<rparr>"

definition examplePartner :: partner where
  "examplePartner =
     \<lparr>getLocations = (\<lambda>url. Inr \<lparr>data = [exampleLocation], nextUrl = None\<rparr>),
      getSessions = (\<lambda>url.
         if url = ''page2'' then Inr \<lparr>data = [OCPISession ''S2''], nextUrl = Some ''page3''\<rparr>
         else if url = ''page3'' then Inr \<lparr>data = [OCPISession ''S3''], nextUrl = None\<rparr>
         else Inr \<lparr>data = [OCPISession ''S1''], nextUrl = Some ''page2''\<rparr>),
      getCdrs = (\<lambda>url. Inr \<lparr>data = [OCPICdr ''C1''], nextUrl = Some url\<rparr>),
      putToken = (\<lambda>url tk. if tokenUid tk = ''T2'' then Some (Failure ''500'') else None),
      updateTransaction = (\<lambda>s. if sessionID s = ''S2'' then Some (Failure ''boom'') else None),
      processCdr = (\<lambda>c. None),
      convertEvseToChargingStation = (\<lambda>e l.
         \<lparr>csID = evse_id e, companyID = None, siteID = None, siteAreaID = None,
          ocpiData_cs = Some (locationID l, case uid e of None \<Rightarrow> [] | Some u \<Rightarrow> u)\<rparr>),
      getEndpointUrl = (\<lambda>m. m),
      getLocalCountryCode = ''FR'',
      getLocalPartyID = ''SLF'',
      buildOperatorName = (\<lambda>c q. c @ ''*'' @ q),
      OCPI_SEPARATOR = ''-'',
      DB_RECORD_COUNT_DEFAULT = 2,
      daysAgo = (\<lambda>n. ''D''),
      now = 1000\<rparr>"

definition exampleEndpoint :: OCPIEndpoint where
  "exampleEndpoint =
     \<lparr>endpointID = ''EP1'', endpointName = ''Partner'', role = EMSP, token = ''secret'',
      countryCode = ''FR'', partyId = ''SLF'', lastPatchJobOn = None, lastPatchJobResult = None\<rparr>"

definition exampleCompany :: Company where
  "exampleCompany = \<lparr>company_id = ''EP1'', company_name = ''Partner''\<rparr>"

text \<open>An empty storage but for three local tokens, two of them with the uid \<open>T2\<close>.\<close>

definition exampleStorage :: storage where
  "exampleStorage =
     \<lparr>companies = [], sites = [], siteAreas = [], stations = [], nextID = 0, existingSites = [],
      localTokens = [OCPIToken ''T1'', OCPIToken ''T2'', OCPIToken ''T2''], ocpiEndpoints = []\<rparr>"

section \<open>Lemmas on the scheduled task\<close>

lemma emitsI:
  assumes "\<And>w. \<exists>es. trace (snd (m w)) = trace w @ es \<and> P es"
  shows "emits P m"
  using assms by (simp add: emits_def)

lemma emitsD:
  assumes "emits P m"
  shows "\<exists>es. trace (snd (m w)) = trace w @ es \<and> P es"
  using assms unfolding emits_def by blast

lemma emits_runEvents:
  assumes "emits P m"
  shows "P (runEvents w (snd (m w)))"
  using emitsD [OF assms, of w] by (auto simp: runEvents_def)

lemma emits_ok: "appendClosed P \<Longrightarrow> emits P (ok x)"
  by (rule emitsI) (simp add: ok_def appendClosed_def)

lemma emits_raise: "appendClosed P \<Longrightarrow> emits P (raise e)"
  by (rule emitsI) (simp add: raise_def appendClosed_def)

lemma emits_pure: "appendClosed P \<Longrightarrow> emits P (\<lambda>w. (r w, w))"
  by (rule emitsI) (simp add: appendClosed_def)

lemma emits_emit: "P [ev] \<Longrightarrow> emits P (emit ev)"
  by (rule emitsI) (simp add: emit_def)

lemma emits_invoke: "P [Call c] \<Longrightarrow> emits P (invoke env c)"
  by (rule emitsI) (auto simp: invoke_def split: option.splits)

lemma emits_andThen:
  assumes P: "appendClosed P" and m: "emits P m" and f: "\<And>x. emits P (f x)"
  shows "emits P (andThen m f)"
proof (rule emitsI)
  fix w
  obtain r w1 where mw: "m w = (r, w1)" by (cases "m w")
  from emitsD [OF m, of w] obtain es1 where t1: "trace (snd (m w)) = trace w @ es1"
    and c1: "P es1" by blast
  show "\<exists>es. trace (snd (andThen m f w)) = trace w @ es \<and> P es"
  proof (cases r)
    case (Inl e)
    with mw t1 c1 show ?thesis by (auto simp: andThen_def)
  next
    case (Inr x)
    from emitsD [OF f, of x w1] obtain es2 where t2: "trace (snd (f x w1)) = trace w1 @ es2"
      and c2: "P es2" by blast
    from Inr mw t1 t2 have "trace (snd (andThen m f w)) = trace w @ (es1 @ es2)"
      by (simp add: andThen_def)
    moreover from P c1 c2 have "P (es1 @ es2)"
      by (simp add: appendClosed_def)
    ultimately show ?thesis by blast
  qed
qed

lemma emits_tryCatch:
  assumes P: "appendClosed P" and m: "emits P m" and h: "\<And>e. emits P (h e)"
  shows "emits P (tryCatch m h)"
proof (rule emitsI)
  fix w
  obtain r w1 where mw: "m w = (r, w1)" by (cases "m w")
  from emitsD [OF m, of w] obtain es1 where t1: "trace (snd (m w)) = trace w @ es1"
    and c1: "P es1" by blast
  show "\<exists>es. trace (snd (tryCatch m h w)) = trace w @ es \<and> P es"
  proof (cases r)
    case (Inr x)
    with mw t1 c1 show ?thesis by (auto simp: tryCatch_def)
  next
    case (Inl e)
    from emitsD [OF h, of e w1] obtain es2 where t2: "trace (snd (h e w1)) = trace w1 @ es2"
      and c2: "P es2" by blast
    from Inl mw t1 t2 have "trace (snd (tryCatch m h w)) = trace w @ (es1 @ es2)"
      by (simp add: tryCatch_def)
    moreover from P c1 c2 have "P (es1 @ es2)"
      by (simp add: appendClosed_def)
    ultimately show ?thesis by blast
  qed
qed

lemma emits_tryFinally:
  assumes P: "appendClosed P" and m: "emits P m" and fin: "emits P fin"
  shows "emits P (tryFinally m fin)"
proof (rule emitsI)
  fix w
  obtain r w1 where mw: "m w = (r, w1)" by (cases "m w")
  from emitsD [OF m, of w] obtain es1 where t1: "trace (snd (m w)) = trace w @ es1"
    and c1: "P es1" by blast
  from emitsD [OF fin, of w1] obtain es2 where t2: "trace (snd (fin w1)) = trace w1 @ es2"
    and c2: "P es2" by blast
  have "snd (tryFinally m fin w) = snd (fin w1)"
    using mw by (simp add: tryFinally_def split: prod.splits sum.splits)
  with mw t1 t2 have "trace (snd (tryFinally m fin w)) = trace w @ (es1 @ es2)"
    by simp
  moreover from P c1 c2 have "P (es1 @ es2)"
    by (simp add: appendClosed_def)
  ultimately show "\<exists>es. trace (snd (tryFinally m fin w)) = trace w @ es \<and> P es" by blast
qed

lemma emits_forEach:
  assumes P: "appendClosed P" and f: "\<And>x. x \<in> set xs \<Longrightarrow> emits P (f x)"
  shows "emits P (forEach f xs)"
  using f by (induction xs) (simp_all add: emits_ok emits_andThen P)

lemma appendClosed_balancedEvents: "appendClosed balancedEvents"
  by (simp add: appendClosed_def balancedEvents_def)

lemma trace_release: "trace (snd (release env l w)) = trace w @ [Call (ReleaseLock l)]"
  by (simp add: release_def invoke_def andThen_def split: option.splits)

lemma acquire_cases:
  obtains
    (Throws) e where "throws env (trace w) (AcquireLock l) = Some e"
      "acquire env l w = (Inl e, w\<lparr>trace := trace w @ [Call (AcquireLock l)]\<rparr>)"
  | (Unavailable) "throws env (trace w) (AcquireLock l) = None" "l \<in> set (locks w)"
      "acquire env l w = (Inr None, w\<lparr>trace := trace w @ [Call (AcquireLock l), Unavailable l]\<rparr>)"
  | (Acquired) "throws env (trace w) (AcquireLock l) = None" "l \<notin> set (locks w)"
     "acquire env l w =
       (Inr (Some l), w\<lparr>locks := l # locks w, trace := trace w @ [Call (AcquireLock l), Acquired l]\<rparr>)"
  by (cases "throws env (trace w) (AcquireLock l)"; cases "l \<in> set (locks w)")
     (auto simp: acquire_def invoke_def andThen_def)

lemma balanced_locked:
  assumes body: "\<And>l'. emits balancedEvents (body l')"
  shows "emits balancedEvents (andThen (acquire env l)
           (\<lambda>lk. case lk of None \<Rightarrow> ok () | Some l' \<Rightarrow> tryFinally (body l') (release env l')))"
proof (rule emitsI)
  fix w
  let ?P = "andThen (acquire env l)
           (\<lambda>lk. case lk of None \<Rightarrow> ok () | Some l' \<Rightarrow> tryFinally (body l') (release env l'))"
  show "\<exists>es. trace (snd (?P w)) = trace w @ es \<and> balancedEvents es"
  proof (cases rule: acquire_cases [of env w l])
    case (Throws e)
    then show ?thesis by (simp add: andThen_def balancedEvents_def)
  next
    case Unavailable
    then show ?thesis by (simp add: andThen_def ok_def balancedEvents_def)
  next
    case Acquired
    define w1 where "w1 = w\<lparr>locks := l # locks w, trace := trace w @ [Call (AcquireLock l), Acquired l]\<rparr>"
    obtain r w2 where bw: "body l w1 = (r, w2)" by (cases "body l w1")
    from emitsD [OF body, of l w1] obtain es where t: "trace (snd (body l w1)) = trace w1 @ es"
      and c: "balancedEvents es" by blast
    have "snd (?P w) = snd (release env l w2)"
      using Acquired bw by (simp add: andThen_def tryFinally_def w1_def split: prod.splits sum.splits)
    then have "trace (snd (?P w)) = trace w2 @ [Call (ReleaseLock l)]"
      by (simp add: trace_release)
    with t bw have "trace (snd (?P w)) = trace w @ ([Call (AcquireLock l), Acquired l] @ es @ [Call (ReleaseLock l)])"
      by (simp add: w1_def)
    moreover have "balancedEvents ([Call (AcquireLock l), Acquired l] @ es @ [Call (ReleaseLock l)])"
      using c by (simp add: balancedEvents_def)
    ultimately show ?thesis by blast
  qed
qed

lemma emits_getTransaction: "appendClosed P \<Longrightarrow> P [Call (GetTransaction tid)] \<Longrightarrow> emits P (getTransaction env tid)"
  unfolding getTransaction_def
  by (intro emits_andThen emits_invoke emits_pure)

lemma emits_getChargingStation: "appendClosed P \<Longrightarrow> P [Call (GetChargingStation cid)] \<Longrightarrow> emits P (getChargingStation env cid)"
  unfolding getChargingStation_def
  by (intro emits_andThen emits_invoke emits_pure)

lemma emits_getTag: "appendClosed P \<Longrightarrow> P [Call (GetTag tid)] \<Longrightarrow> emits P (getTag env tid)"
  unfolding getTag_def
  by (intro emits_andThen emits_invoke emits_pure)

lemma emits_processTransactionRoaming:
  "appendClosed P \<Longrightarrow> P [Call (ProcessTransactionRoaming (txID t))] \<Longrightarrow> emits P (processTransactionRoaming env t c g)"
  unfolding processTransactionRoaming_def
  by (intro emits_andThen emits_invoke emits_ok)

lemma emits_saveTransactionOcpiData:
  "appendClosed P \<Longrightarrow> P [Call (SaveTransactionOcpiData tid)] \<Longrightarrow> emits P (saveTransactionOcpiData env tid od)"
  unfolding saveTransactionOcpiData_def
  by (rule emits_andThen, assumption, rule emits_invoke, assumption, rule emitsI) (simp add: appendClosed_def)

lemma emits_aggregateTransactions:
  "appendClosed P \<Longrightarrow> P [Call AggregateTransactions] \<Longrightarrow> emits P (aggregateTransactions env)"
  unfolding aggregateTransactions_def
  by (intro emits_andThen emits_invoke emits_pure)

lemma balancedEvents_single:
  "balancedEvents [LogInfo m]" "balancedEvents [LogError m]" "balancedEvents [LogActionException e]"
  "balancedEvents [Call (GetTransaction tid)]" "balancedEvents [Call (GetChargingStation cid)]"
  "balancedEvents [Call (GetTag g)]" "balancedEvents [Call (ProcessTransactionRoaming tid)]"
  "balancedEvents [Call (SaveTransactionOcpiData tid)]" "balancedEvents [Call AggregateTransactions]"
  "balancedEvents [Call (LogActionExceptionMessage e)]"
  by (simp_all add: balancedEvents_def)

lemma emits_logActionExceptionMessage:
  "appendClosed P \<Longrightarrow> P [Call (LogActionExceptionMessage e)] \<Longrightarrow> P [LogActionException e] \<Longrightarrow>
   emits P (logActionExceptionMessage env e)"
  unfolding logActionExceptionMessage_def
  by (intro emits_andThen emits_invoke emits_emit)

lemma balanced_pushCdrOfTransaction: "emits balancedEvents (pushCdrOfTransaction env tid)"
  unfolding pushCdrOfTransaction_def logInfo_def logError_def
  by (intro emits_andThen emits_getTransaction appendClosed_balancedEvents balancedEvents_single)
     (auto split: option.splits
        intro!: emits_andThen emits_emit emits_raise emits_getChargingStation emits_getTag
          emits_processTransactionRoaming emits_saveTransactionOcpiData
          appendClosed_balancedEvents balancedEvents_single)

lemma balanced_pushCdr: "emits balancedEvents (pushCdr env tenant tid)"
  unfolding pushCdr_def acquireOCPIPushCdrLock_def logError_def
  by (rule balanced_locked)
     (intro emits_tryCatch balanced_pushCdrOfTransaction emits_emit
        appendClosed_balancedEvents balancedEvents_single)

lemma balanced_pushCdrs: "emits balancedEvents (pushCdrs env tenant)"
  unfolding pushCdrs_def logInfo_def
  by (intro emits_andThen emits_aggregateTransactions appendClosed_balancedEvents
        balancedEvents_single)
     (auto intro!: emits_andThen emits_emit emits_forEach balanced_pushCdr emits_ok
        appendClosed_balancedEvents balancedEvents_single)

lemma balanced_processTenant: "emits balancedEvents (processTenant env tenant)"
  unfolding processTenant_def tryProcessTenant_def acquireOCPIPushCpoCdrsLock_def
  by (intro emits_tryCatch emits_logActionExceptionMessage appendClosed_balancedEvents
        balancedEvents_single)
     (auto intro!: balanced_locked balanced_pushCdrs emits_ok appendClosed_balancedEvents)

lemma pushCdrOfTransaction_skip:
  assumes "filter (\<lambda>t. txID t = tid) (transactions w) = [t]"
    and "ocpiData t = Some od" and "cdr od = Some c"
  shows "pushCdrOfTransaction env tid w =
     (case throws env (trace w) (GetTransaction tid) of
        Some e \<Rightarrow> (Inl e, w\<lparr>trace := trace w @ [Call (GetTransaction tid)]\<rparr>)
      | None \<Rightarrow> (Inr (), w\<lparr>trace := trace w @ [Call (GetTransaction tid),
                                  LogInfo (AlreadyHasCdrPushed tid)]\<rparr>))"
  using assms
  by (simp add: pushCdrOfTransaction_def getTransaction_def andThen_def invoke_def
      logInfo_def emit_def split: option.splits)

lemma release_eq:
  "release env l w =
     (case throws env (trace w) (ReleaseLock l) of
        Some e \<Rightarrow> (Inl e, w\<lparr>trace := trace w @ [Call (ReleaseLock l)]\<rparr>)
      | None \<Rightarrow> (Inr (), w\<lparr>trace := trace w @ [Call (ReleaseLock l)],
                           locks := removeAll l (locks w)\<rparr>))"
  by (simp add: release_def invoke_def andThen_def split: option.splits)

lemma appendClosed_roundsOnly: "appendClosed (roundsOnly S)"
  by (auto simp: appendClosed_def roundsOnly_def)

lemma roundsOnly_single:
  "roundsOnly S [LogInfo m]" "roundsOnly S [LogError m]" "roundsOnly S [LogActionException e]"
  "roundsOnly S [Call (GetTransaction tid)]" "roundsOnly S [Call (GetChargingStation cid)]"
  "roundsOnly S [Call (GetTag g)]" "roundsOnly S [Call (ProcessTransactionRoaming tid)]"
  "roundsOnly S [Call (SaveTransactionOcpiData tid)]" "roundsOnly S [Call AggregateTransactions]"
  "roundsOnly S [Call (ReleaseLock l)]" "roundsOnly S [Acquired l]" "roundsOnly S [Unavailable l]"
  "roundsOnly S [Call (AcquireLock (OCPIPushCpoCdrsLock tn))]"
  "tid \<in> S \<Longrightarrow> roundsOnly S [Call (AcquireLock (OCPIPushCdrLock tn tid))]"
  "roundsOnly S [Call (LogActionExceptionMessage e)]"
  by (simp_all add: roundsOnly_def)

lemma emits_acquire:
  assumes "appendClosed P" "P [Call (AcquireLock l)]" "P [Unavailable l]" "P [Acquired l]"
  shows "emits P (acquire env l)"
proof (rule emitsI)
  fix w
  from assms have "P ([Call (AcquireLock l)] @ [Unavailable l])" "P ([Call (AcquireLock l)] @ [Acquired l])"
    unfolding appendClosed_def by blast+
  then have two: "P [Call (AcquireLock l), Unavailable l]" "P [Call (AcquireLock l), Acquired l]"
    by simp_all
  show "\<exists>es. trace (snd (acquire env l w)) = trace w @ es \<and> P es"
  proof (cases rule: acquire_cases [of env w l])
    case (Throws e)
    with assms(2) show ?thesis by simp
  next
    case Unavailable
    with two show ?thesis by simp
  next
    case Acquired
    with two show ?thesis by simp
  qed
qed

lemma emits_release: "P [Call (ReleaseLock l)] \<Longrightarrow> emits P (release env l)"
  by (rule emitsI) (simp add: trace_release)

lemma rounds_pushCdrOfTransaction: "emits (roundsOnly S) (pushCdrOfTransaction env tid)"
  unfolding pushCdrOfTransaction_def logInfo_def logError_def
  by (intro emits_andThen emits_getTransaction appendClosed_roundsOnly roundsOnly_single)
     (auto split: option.splits
        intro!: emits_andThen emits_emit emits_raise emits_getChargingStation emits_getTag
          emits_processTransactionRoaming emits_saveTransactionOcpiData
          appendClosed_roundsOnly roundsOnly_single)

lemma rounds_pushCdr:
  assumes "tid \<in> S"
  shows "emits (roundsOnly S) (pushCdr env tenant tid)"
  unfolding pushCdr_def acquireOCPIPushCdrLock_def logError_def
  using assms
  by (intro emits_andThen emits_acquire appendClosed_roundsOnly roundsOnly_single)
     (auto split: option.splits
        intro!: emits_ok emits_tryFinally emits_tryCatch emits_release emits_emit
          rounds_pushCdrOfTransaction appendClosed_roundsOnly roundsOnly_single)

lemma rounds_pushCdrs:
  "\<exists>es. trace (snd (pushCdrs env tenant w)) = trace w @ es \<and> roundsOnly (set (candidateIDs w)) es"
proof (cases "throws env (trace w) AggregateTransactions")
  case (Some e)
  then have "trace (snd (pushCdrs env tenant w)) = trace w @ [Call AggregateTransactions]"
    by (simp add: pushCdrs_def aggregateTransactions_def andThen_def invoke_def)
  then show ?thesis using roundsOnly_single(9) by blast
next
  case None
  define w1 where "w1 = w\<lparr>trace := trace w @ [Call AggregateTransactions]\<rparr>"
  let ?ids = "candidateIDs w"
  let ?rest = "if ?ids \<noteq> []
       then andThen (logInfo (CdrsGoingToBePushed (length ?ids)))
              (\<lambda>u. forEach (pushCdr env tenant) ?ids)
       else ok ()"
  have run: "pushCdrs env tenant w = ?rest w1"
    using None by (simp add: pushCdrs_def aggregateTransactions_def andThen_def invoke_def
        candidateIDs_def w1_def)
  have "emits (roundsOnly (set ?ids)) ?rest"
    unfolding logInfo_def
    by (auto intro!: emits_andThen emits_emit emits_forEach rounds_pushCdr emits_ok
        appendClosed_roundsOnly roundsOnly_single)
  from emitsD [OF this, of w1] obtain es where es: "trace (snd (?rest w1)) = trace w1 @ es"
    "roundsOnly (set ?ids) es" by blast
  have "roundsOnly (set ?ids) ([Call AggregateTransactions] @ es)"
    using es(2) appendClosed_roundsOnly [of "set ?ids"] roundsOnly_single(9) [of "set ?ids"]
    unfolding appendClosed_def by blast
  moreover have "trace (snd (pushCdrs env tenant w)) = trace w @ ([Call AggregateTransactions] @ es)"
    using run es(1) by (simp add: w1_def)
  ultimately show ?thesis by blast
qed

lemma trace_tryFinally_release:
  "trace (snd (tryFinally m (release env l) w)) = trace (snd (m w)) @ [Call (ReleaseLock l)]"
proof -
  obtain r w1 where mw: "m w = (r, w1)" by (cases "m w")
  then have "snd (tryFinally m (release env l) w) = snd (release env l w1)"
    by (simp add: tryFinally_def split: prod.splits sum.splits)
  with mw show ?thesis by (simp add: trace_release)
qed

lemma trace_tryCatch:
  assumes h: "\<And>e. emits P (h e)" and nil: "P []"
  shows "\<exists>es. trace (snd (tryCatch m h w)) = trace (snd (m w)) @ es \<and> P es"
proof -
  obtain r w1 where mw: "m w = (r, w1)" by (cases "m w")
  show ?thesis
  proof (cases r)
    case (Inl e)
    from emitsD [OF h, of e w1] obtain es where "trace (snd (h e w1)) = trace w1 @ es" "P es"
      by blast
    with Inl mw show ?thesis by (auto simp: tryCatch_def)
  next
    case (Inr u)
    with mw have "trace (snd (tryCatch m h w)) = trace (snd (m w)) @ []"
      by (simp add: tryCatch_def)
    with nil show ?thesis by blast
  qed
qed

lemma trace_tryCatch_log:
  "\<exists>es. trace (snd (tryCatch m (logActionExceptionMessage env) w)) = trace (snd (m w)) @ es
     \<and> roundsOnly S es"
  by (rule trace_tryCatch [where P = "roundsOnly S"])
     (auto intro!: emits_logActionExceptionMessage appendClosed_roundsOnly roundsOnly_single
        simp: roundsOnly_def)

lemma rounds_processTenant:
  "roundsOnly (set (candidateIDs w)) (runEvents w (snd (processTenant env tenant w)))"
proof -
  let ?S = "set (candidateIDs w)"
  let ?l = "OCPIPushCpoCdrsLock (tenantID tenant)"
  let ?body = "if isTenantComponentActive tenant ''ocpi''
        then andThen (acquireOCPIPushCpoCdrsLock env (tenantID tenant)) (\<lambda>ocpiLock.
            case ocpiLock of None \<Rightarrow> ok ()
            | Some l \<Rightarrow> tryFinally (pushCdrs env tenant) (release env l))
        else ok ()"
  have body: "\<exists>es. trace (snd (?body w)) = trace w @ es \<and> roundsOnly ?S es"
  proof (cases "isTenantComponentActive tenant ''ocpi''")
    case False
    then have "trace (snd (?body w)) = trace w @ []" by (simp add: ok_def)
    moreover have "roundsOnly ?S []" by (simp add: roundsOnly_def)
    ultimately show ?thesis by blast
  next
    case True
    show ?thesis
    proof (cases rule: acquire_cases [of env w ?l])
      case (Throws e)
      with True have "trace (snd (?body w)) = trace w @ [Call (AcquireLock ?l)]"
        by (simp add: acquireOCPIPushCpoCdrsLock_def andThen_def)
      then show ?thesis using roundsOnly_single(13) by blast
    next
      case Unavailable
      with True have "trace (snd (?body w)) = trace w @ [Call (AcquireLock ?l), Unavailable ?l]"
        by (simp add: acquireOCPIPushCpoCdrsLock_def andThen_def ok_def)
      moreover have "roundsOnly ?S [Call (AcquireLock ?l), Unavailable ?l]"
        by (simp add: roundsOnly_def)
      ultimately show ?thesis by blast
    next
      case Acquired
      define w1 where "w1 = w\<lparr>locks := ?l # locks w, trace := trace w @ [Call (AcquireLock ?l), Acquired ?l]\<rparr>"
      have c1: "candidateIDs w1 = candidateIDs w" by (simp add: candidateIDs_def w1_def)
      from rounds_pushCdrs [of env tenant w1] obtain es where
        es: "trace (snd (pushCdrs env tenant w1)) = trace w1 @ es" "roundsOnly ?S es"
        by (auto simp: c1)
      have "?body w = tryFinally (pushCdrs env tenant) (release env ?l) w1"
        using True Acquired by (simp add: acquireOCPIPushCpoCdrsLock_def andThen_def w1_def)
      then have "trace (snd (?body w)) = trace w @ ([Call (AcquireLock ?l), Acquired ?l] @ es @ [Call (ReleaseLock ?l)])"
        using es(1) by (simp add: trace_tryFinally_release w1_def)
      moreover have "roundsOnly ?S ([Call (AcquireLock ?l), Acquired ?l] @ es @ [Call (ReleaseLock ?l)])"
        using es(2) by (auto simp: roundsOnly_def)
      ultimately show ?thesis by blast
    qed
  qed
  then obtain es where es: "trace (snd (?body w)) = trace w @ es" "roundsOnly ?S es" by blast
  from trace_tryCatch_log [of ?body env w ?S] obtain es' where
    es': "trace (snd (tryCatch ?body (logActionExceptionMessage env) w)) = trace (snd (?body w)) @ es'"
    "roundsOnly ?S es'" by blast
  have "processTenant env tenant = tryCatch ?body (logActionExceptionMessage env)"
    by (simp add: processTenant_def tryProcessTenant_def)
  with es es' have "runEvents w (snd (processTenant env tenant w)) = es @ es'"
    by (simp add: runEvents_def)
  moreover have "roundsOnly ?S (es @ es')"
    using es(2) es'(2) by (auto simp: roundsOnly_def)
  ultimately show ?thesis by simp
qed

lemma example_run:
  "runEvents exampleWorld (snd (processTenant exampleEnv exampleTenant exampleWorld)) =
     [Call (AcquireLock (OCPIPushCpoCdrsLock ''tenant1'')),
      Acquired (OCPIPushCpoCdrsLock ''tenant1''),
      Call AggregateTransactions,
      LogInfo (CdrsGoingToBePushed 1),
      Call (AcquireLock (OCPIPushCdrLock ''tenant1'' 1)),
      Acquired (OCPIPushCdrLock ''tenant1'' 1),
      Call (GetTransaction 1),
      Call (GetChargingStation ''CS1''),
      Call (GetTag ''TAG1''),
      Call (ProcessTransactionRoaming 1),
      Call (SaveTransactionOcpiData 1),
      LogInfo (CdrPushedSuccessfully 1 (Some ''CDR'')),
      Call (ReleaseLock (OCPIPushCdrLock ''tenant1'' 1)),
      Call (ReleaseLock (OCPIPushCpoCdrsLock ''tenant1''))]"
  by (simp add: processTenant_def tryProcessTenant_def tryCatch_def tryFinally_def andThen_def ok_def
      isTenantComponentActive_def acquireOCPIPushCpoCdrsLock_def acquireOCPIPushCdrLock_def
      acquire_def release_def invoke_def pushCdrs_def pushCdr_def pushCdrOfTransaction_def
      aggregateTransactions_def getTransaction_def getChargingStation_def getTag_def
      processTransactionRoaming_def saveTransactionOcpiData_def logInfo_def logError_def
      logActionExceptionMessage_def emit_def matchFinishedWithNoCdr_def runEvents_def
      exampleEnv_def exampleTenant_def exampleWorld_def tx1_def tx2_def tx3_def tx4_def)

lemma appendClosed_noLockEvents: "appendClosed noLockEvents"
  by (auto simp: appendClosed_def noLockEvents_def)

lemma appendClosed_noTenantLockEvents: "appendClosed noTenantLockEvents"
  by (auto simp: appendClosed_def noTenantLockEvents_def)

lemma emits_pushCdrOfTransaction:
  assumes "appendClosed P"
    and "\<And>n. P [Call (GetTransaction n)]" and "\<And>c. P [Call (GetChargingStation c)]"
    and "\<And>g. P [Call (GetTag g)]" and "\<And>n. P [Call (ProcessTransactionRoaming n)]"
    and "\<And>n. P [Call (SaveTransactionOcpiData n)]"
    and "\<And>m. P [LogInfo m]" and "\<And>m. P [LogError m]"
  shows "emits P (pushCdrOfTransaction env tid)"
  unfolding pushCdrOfTransaction_def logInfo_def logError_def
  by (intro emits_andThen emits_getTransaction assms)
     (auto split: option.splits
        intro!: emits_andThen emits_emit emits_raise emits_getChargingStation emits_getTag
          emits_processTransactionRoaming emits_saveTransactionOcpiData assms)

lemma emits_workOfRound:
  assumes "appendClosed P"
    and "\<And>n. P [Call (GetTransaction n)]" and "\<And>c. P [Call (GetChargingStation c)]"
    and "\<And>g. P [Call (GetTag g)]" and "\<And>n. P [Call (ProcessTransactionRoaming n)]"
    and "\<And>n. P [Call (SaveTransactionOcpiData n)]"
    and "\<And>m. P [LogInfo m]" and "\<And>m. P [LogError m]"
  shows "emits P (workOfRound env tid)"
  unfolding workOfRound_def logError_def
  by (intro emits_tryCatch emits_pushCdrOfTransaction emits_emit assms)

lemma noLock_workOfRound: "emits noLockEvents (workOfRound env tid)"
  by (rule emits_workOfRound) (simp_all add: appendClosed_noLockEvents noLockEvents_def)

lemma noTenantLock_workOfRound: "emits noTenantLockEvents (workOfRound env tid)"
  by (rule emits_workOfRound) (simp_all add: appendClosed_noTenantLockEvents noTenantLockEvents_def)

lemma pushCdr_acquired:
  assumes "throws env (trace w) (AcquireLock (OCPIPushCdrLock (tenantID tenant) tid)) = None"
    and "OCPIPushCdrLock (tenantID tenant) tid \<notin> set (locks w)"
  shows "pushCdr env tenant tid w =
     tryFinally (workOfRound env tid) (release env (OCPIPushCdrLock (tenantID tenant) tid))
       (afterAcquire (OCPIPushCdrLock (tenantID tenant) tid) w)"
  using assms
  by (simp add: pushCdr_def acquireOCPIPushCdrLock_def acquire_def invoke_def andThen_def
      workOfRound_def afterAcquire_def)

lemma tryProcessTenant_acquired:
  assumes "isTenantComponentActive tenant ''ocpi''"
    and "throws env (trace w) (AcquireLock (OCPIPushCpoCdrsLock (tenantID tenant))) = None"
    and "OCPIPushCpoCdrsLock (tenantID tenant) \<notin> set (locks w)"
  shows "tryProcessTenant env tenant w =
     tryFinally (pushCdrs env tenant) (release env (OCPIPushCpoCdrsLock (tenantID tenant)))
       (afterAcquire (OCPIPushCpoCdrsLock (tenantID tenant)) w)"
  using assms
  by (simp add: tryProcessTenant_def acquireOCPIPushCpoCdrsLock_def acquire_def invoke_def
      andThen_def afterAcquire_def)

lemma noTenantLock_pushCdr: "emits noTenantLockEvents (pushCdr env tenant tid)"
proof (rule emitsI)
  fix w
  let ?l = "OCPIPushCdrLock (tenantID tenant) tid"
  show "\<exists>es. trace (snd (pushCdr env tenant tid w)) = trace w @ es \<and> noTenantLockEvents es"
  proof (cases rule: acquire_cases [of env w ?l])
    case (Throws e)
    then have "trace (snd (pushCdr env tenant tid w)) = trace w @ [Call (AcquireLock ?l)]"
      by (simp add: pushCdr_def acquireOCPIPushCdrLock_def andThen_def)
    moreover have "noTenantLockEvents [Call (AcquireLock ?l)]"
      by (simp add: noTenantLockEvents_def)
    ultimately show ?thesis by blast
  next
    case Unavailable
    then have "trace (snd (pushCdr env tenant tid w)) = trace w @ [Call (AcquireLock ?l), Unavailable ?l]"
      by (simp add: pushCdr_def acquireOCPIPushCdrLock_def andThen_def ok_def)
    moreover have "noTenantLockEvents [Call (AcquireLock ?l), Unavailable ?l]"
      by (simp add: noTenantLockEvents_def)
    ultimately show ?thesis by blast
  next
    case Acquired
    from emitsD [OF noTenantLock_workOfRound, of env tid "afterAcquire ?l w"] obtain es where
      es: "trace (snd (workOfRound env tid (afterAcquire ?l w))) = trace (afterAcquire ?l w) @ es"
      "noTenantLockEvents es" by blast
    have "trace (snd (pushCdr env tenant tid w))
        = trace w @ ([Call (AcquireLock ?l), Acquired ?l] @ es @ [Call (ReleaseLock ?l)])"
      using pushCdr_acquired [OF Acquired(1,2)] es(1)
      by (simp add: trace_tryFinally_release afterAcquire_def)
    moreover have "noTenantLockEvents ([Call (AcquireLock ?l), Acquired ?l] @ es @ [Call (ReleaseLock ?l)])"
      using es(2) by (simp add: noTenantLockEvents_def)
    ultimately show ?thesis by blast
  qed
qed

lemma noTenantLock_pushCdrs: "emits noTenantLockEvents (pushCdrs env tenant)"
  unfolding pushCdrs_def logInfo_def
  by (intro emits_andThen emits_aggregateTransactions appendClosed_noTenantLockEvents)
     (auto intro!: emits_andThen emits_emit emits_forEach noTenantLock_pushCdr emits_ok
        appendClosed_noTenantLockEvents simp: noTenantLockEvents_def)

lemma noLock_logActionExceptionMessage: "emits noLockEvents (logActionExceptionMessage env e)"
  by (rule emits_logActionExceptionMessage)
     (simp_all add: appendClosed_noLockEvents noLockEvents_def)

lemma round_releases_last:
  assumes a: "throws env (trace w) (AcquireLock (OCPIPushCdrLock (tenantID tenant) tid)) = None"
    and f: "OCPIPushCdrLock (tenantID tenant) tid \<notin> set (locks w)"
  shows "trace (snd (pushCdr env tenant tid w))
        = trace (snd (workOfRound env tid (afterAcquire (OCPIPushCdrLock (tenantID tenant) tid) w)))
            @ [Call (ReleaseLock (OCPIPushCdrLock (tenantID tenant) tid))]
     \<and> noLockEvents (runEvents (afterAcquire (OCPIPushCdrLock (tenantID tenant) tid) w)
          (snd (workOfRound env tid (afterAcquire (OCPIPushCdrLock (tenantID tenant) tid) w))))
     \<and> count_list (runEvents w (snd (pushCdr env tenant tid w)))
          (Call (ReleaseLock (OCPIPushCdrLock (tenantID tenant) tid))) = 1"
proof -
  let ?l = "OCPIPushCdrLock (tenantID tenant) tid"
  let ?w1 = "afterAcquire ?l w"
  have t: "trace (snd (pushCdr env tenant tid w))
      = trace (snd (workOfRound env tid ?w1)) @ [Call (ReleaseLock ?l)]"
    using pushCdr_acquired [OF a f] by (simp add: trace_tryFinally_release)
  from emitsD [OF noLock_workOfRound, of env tid ?w1] obtain es where
    es: "trace (snd (workOfRound env tid ?w1)) = trace ?w1 @ es" "noLockEvents es" by blast
  have n: "noLockEvents (runEvents ?w1 (snd (workOfRound env tid ?w1)))"
    by (rule emits_runEvents [OF noLock_workOfRound])
  from es(2) have "Call (ReleaseLock ?l) \<notin> set es" by (simp add: noLockEvents_def)
  then have z: "count_list es (Call (ReleaseLock ?l)) = 0" by (simp add: count_list_0_iff)
  have "runEvents w (snd (pushCdr env tenant tid w))
      = [Call (AcquireLock ?l), Acquired ?l] @ es @ [Call (ReleaseLock ?l)]"
    using t es(1) by (simp add: runEvents_def afterAcquire_def)
  then have "count_list (runEvents w (snd (pushCdr env tenant tid w))) (Call (ReleaseLock ?l)) = 1"
    using z by simp
  with t n show ?thesis by blast
qed

lemma run_releases_last:
  assumes c: "isTenantComponentActive tenant ''ocpi''"
    and a: "throws env (trace w) (AcquireLock (OCPIPushCpoCdrsLock (tenantID tenant))) = None"
    and f: "OCPIPushCpoCdrsLock (tenantID tenant) \<notin> set (locks w)"
  shows "(\<exists>tail. trace (snd (processTenant env tenant w))
            = trace (snd (pushCdrs env tenant (afterAcquire (OCPIPushCpoCdrsLock (tenantID tenant)) w)))
                @ Call (ReleaseLock (OCPIPushCpoCdrsLock (tenantID tenant))) # tail
          \<and> noLockEvents tail)
     \<and> noTenantLockEvents (runEvents (afterAcquire (OCPIPushCpoCdrsLock (tenantID tenant)) w)
          (snd (pushCdrs env tenant (afterAcquire (OCPIPushCpoCdrsLock (tenantID tenant)) w))))
     \<and> count_list (runEvents w (snd (processTenant env tenant w)))
          (Call (ReleaseLock (OCPIPushCpoCdrsLock (tenantID tenant)))) = 1"
proof -
  let ?l = "OCPIPushCpoCdrsLock (tenantID tenant)"
  let ?w1 = "afterAcquire ?l w"
  have b: "trace (snd (tryProcessTenant env tenant w))
      = trace (snd (pushCdrs env tenant ?w1)) @ [Call (ReleaseLock ?l)]"
    using tryProcessTenant_acquired [OF c a f] by (simp add: trace_tryFinally_release)
  have "\<exists>tail. trace (snd (tryCatch (tryProcessTenant env tenant) (logActionExceptionMessage env) w))
      = trace (snd (tryProcessTenant env tenant w)) @ tail \<and> noLockEvents tail"
    by (rule trace_tryCatch [where P = noLockEvents])
       (simp_all add: noLock_logActionExceptionMessage noLockEvents_def)
  then obtain tail where tail: "trace (snd (processTenant env tenant w))
      = trace (snd (tryProcessTenant env tenant w)) @ tail" "noLockEvents tail"
    by (auto simp: processTenant_def)
  from emitsD [OF noTenantLock_pushCdrs, of env tenant ?w1] obtain es where
    es: "trace (snd (pushCdrs env tenant ?w1)) = trace ?w1 @ es" "noTenantLockEvents es" by blast
  have n: "noTenantLockEvents (runEvents ?w1 (snd (pushCdrs env tenant ?w1)))"
    by (rule emits_runEvents [OF noTenantLock_pushCdrs])
  have t: "trace (snd (processTenant env tenant w))
      = trace (snd (pushCdrs env tenant ?w1)) @ Call (ReleaseLock ?l) # tail"
    using b tail(1) by simp
  from es(2) have "Call (ReleaseLock ?l) \<notin> set es" by (simp add: noTenantLockEvents_def)
  then have z1: "count_list es (Call (ReleaseLock ?l)) = 0" by (simp add: count_list_0_iff)
  from tail(2) have "Call (ReleaseLock ?l) \<notin> set tail" by (simp add: noLockEvents_def)
  then have z2: "count_list tail (Call (ReleaseLock ?l)) = 0" by (simp add: count_list_0_iff)
  have "runEvents w (snd (processTenant env tenant w))
      = [Call (AcquireLock ?l), Acquired ?l] @ es @ [Call (ReleaseLock ?l)] @ tail"
    using t es(1) by (simp add: runEvents_def afterAcquire_def)
  then have "count_list (runEvents w (snd (processTenant env tenant w))) (Call (ReleaseLock ?l)) = 1"
    using z1 z2 by simp
  with t tail(2) n show ?thesis by blast
qed

lemma processTenant_cases:
  "(fst (tryProcessTenant env tenant w) = Inr () \<longrightarrow>
      processTenant env tenant w = tryProcessTenant env tenant w)
   \<and> (tryProcessTenant env tenant w = (Inl e, w1)
       \<and> throws env (trace w1) (LogActionExceptionMessage e) = None \<longrightarrow>
      processTenant env tenant w =
        (Inr (), w1\<lparr>trace := trace w1 @ [Call (LogActionExceptionMessage e), LogActionException e]\<rparr>))
   \<and> (tryProcessTenant env tenant w = (Inl e, w1)
       \<and> throws env (trace w1) (LogActionExceptionMessage e) = Some e' \<longrightarrow>
      processTenant env tenant w =
        (Inl e', w1\<lparr>trace := trace w1 @ [Call (LogActionExceptionMessage e)]\<rparr>))"
  by (cases "tryProcessTenant env tenant w")
     (auto simp: processTenant_def tryCatch_def logActionExceptionMessage_def andThen_def
        invoke_def emit_def split: sum.splits)

lemma processTenant_returns:
  assumes "\<forall>es e. throws env es (LogActionExceptionMessage e) = None"
  shows "fst (processTenant env tenant w) = Inr ()"
  using assms
  by (cases "tryProcessTenant env tenant w")
     (auto simp: processTenant_def tryCatch_def logActionExceptionMessage_def andThen_def
        invoke_def emit_def split: sum.splits)

section \<open>The claims on the scheduled task\<close>

text \<open>
  C1. In a round of the candidate loop for a transaction whose stored document already
  has \<open>ocpiData.cdr\<close> (so that the re-fetch returns it with its CDR), the task makes no
  call to the roaming finalization and no call to save the roaming data, whatever the
  lock manager answers and whichever call throws, and the stored transactions are left
  as they were; when the re-fetch does not throw, the body of the round logs that the
  CDR is already pushed and ends.
\<close>

theorem pushed_cdr_is_skipped:
  assumes "filter (\<lambda>t. txID t = tid) (transactions w) = [t]"
    and "ocpiData t = Some od" and "cdr od = Some c"
  shows "transactions (snd (pushCdr env tenant tid w)) = transactions w
     \<and> (\<forall>n. Call (ProcessTransactionRoaming n) \<notin> set (runEvents w (snd (pushCdr env tenant tid w))))
     \<and> (\<forall>n. Call (SaveTransactionOcpiData n) \<notin> set (runEvents w (snd (pushCdr env tenant tid w))))
     \<and> (throws env (trace w) (GetTransaction tid) = None \<longrightarrow>
          pushCdrOfTransaction env tid w =
            (Inr (), w\<lparr>trace := trace w @ [Call (GetTransaction tid),
                                           LogInfo (AlreadyHasCdrPushed tid)]\<rparr>))"
proof -
  let ?l = "OCPIPushCdrLock (tenantID tenant) tid"
  have last: "throws env (trace w) (GetTransaction tid) = None \<longrightarrow>
          pushCdrOfTransaction env tid w =
            (Inr (), w\<lparr>trace := trace w @ [Call (GetTransaction tid),
                                           LogInfo (AlreadyHasCdrPushed tid)]\<rparr>)"
    using pushCdrOfTransaction_skip [OF assms] by simp
  have "transactions (snd (pushCdr env tenant tid w)) = transactions w
     \<and> (\<forall>n. Call (ProcessTransactionRoaming n) \<notin> set (runEvents w (snd (pushCdr env tenant tid w))))
     \<and> (\<forall>n. Call (SaveTransactionOcpiData n) \<notin> set (runEvents w (snd (pushCdr env tenant tid w))))"
  proof (cases rule: acquire_cases [of env w ?l])
    case (Throws e)
    then show ?thesis
      by (simp add: pushCdr_def acquireOCPIPushCdrLock_def andThen_def runEvents_def)
  next
    case Unavailable
    then show ?thesis
      by (simp add: pushCdr_def acquireOCPIPushCdrLock_def andThen_def ok_def runEvents_def)
  next
    case Acquired
    define w1 where "w1 = w\<lparr>locks := ?l # locks w, trace := trace w @ [Call (AcquireLock ?l), Acquired ?l]\<rparr>"
    have "filter (\<lambda>t. txID t = tid) (transactions w1) = [t]"
      using assms(1) by (simp add: w1_def)
    note skip = pushCdrOfTransaction_skip [OF this assms(2,3), of env]
    show ?thesis
      using Acquired(3) skip
      by (simp add: pushCdr_def acquireOCPIPushCdrLock_def andThen_def tryFinally_def
          tryCatch_def logError_def emit_def release_eq runEvents_def w1_def
          split: option.splits)
  qed
  with last show ?thesis by blast
qed

theorem pushed_cdr_is_skipped_witness:
  "filter (\<lambda>t. txID t = 2) (transactions exampleWorld) = [tx2]
   \<and> ocpiData tx2 = Some \<lparr>session = ''S2'', cdr = Some ''CDR2''\<rparr>
   \<and> transactions (snd (pushCdr exampleEnv exampleTenant 2 exampleWorld)) = transactions exampleWorld
   \<and> Call (ProcessTransactionRoaming 2) \<notin> set (runEvents exampleWorld (snd (pushCdr exampleEnv exampleTenant 2 exampleWorld)))
   \<and> Call (SaveTransactionOcpiData 2) \<notin> set (runEvents exampleWorld (snd (pushCdr exampleEnv exampleTenant 2 exampleWorld)))
   \<and> pushCdrOfTransaction exampleEnv 2 exampleWorld =
        (Inr (), exampleWorld\<lparr>trace := [Call (GetTransaction 2), LogInfo (AlreadyHasCdrPushed 2)]\<rparr>)"
proof -
  have h1: "filter (\<lambda>t. txID t = 2) (transactions exampleWorld) = [tx2]"
    by (simp add: exampleWorld_def tx1_def tx2_def tx3_def tx4_def)
  have h2: "ocpiData tx2 = Some \<lparr>session = ''S2'', cdr = Some ''CDR2''\<rparr>"
    by (simp add: tx2_def)
  have h3: "cdr \<lparr>session = ''S2'', cdr = Some ''CDR2''\<rparr> = Some ''CDR2''"
    by simp
  have h4: "throws exampleEnv (trace exampleWorld) (GetTransaction 2) = None"
    by (simp add: exampleEnv_def)
  have h5: "trace exampleWorld = []"
    by (simp add: exampleWorld_def)
  from pushed_cdr_is_skipped [OF h1 h2 h3, of exampleEnv exampleTenant] h1 h2 h4 h5
  show ?thesis by simp
qed

text \<open>
  C5. An unavailable lock is not an error. When the tenant-wide lock is held and its
  acquisition does not throw, the run returns normally having done nothing else: no
  query, no transaction touched, no log entry. When the lock of a transaction is held,
  the round for that transaction returns normally having done nothing else, and the
  loop goes on with the remaining candidates.
\<close>

theorem unavailable_lock_is_skipped:
  "(isTenantComponentActive tenant ''ocpi''
      \<and> OCPIPushCpoCdrsLock (tenantID tenant) \<in> set (locks w)
      \<and> throws env (trace w) (AcquireLock (OCPIPushCpoCdrsLock (tenantID tenant))) = None
    \<longrightarrow> processTenant env tenant w =
          (Inr (), w\<lparr>trace := trace w @ [Call (AcquireLock (OCPIPushCpoCdrsLock (tenantID tenant))),
                                         Unavailable (OCPIPushCpoCdrsLock (tenantID tenant))]\<rparr>))
   \<and> (OCPIPushCdrLock (tenantID tenant) tid \<in> set (locks w)
      \<and> throws env (trace w) (AcquireLock (OCPIPushCdrLock (tenantID tenant) tid)) = None
    \<longrightarrow> pushCdr env tenant tid w =
          (Inr (), w\<lparr>trace := trace w @ [Call (AcquireLock (OCPIPushCdrLock (tenantID tenant) tid)),
                                         Unavailable (OCPIPushCdrLock (tenantID tenant) tid)]\<rparr>)
        \<and> forEach (pushCdr env tenant) (tid # rest) w =
          forEach (pushCdr env tenant) rest
            (w\<lparr>trace := trace w @ [Call (AcquireLock (OCPIPushCdrLock (tenantID tenant) tid)),
                                   Unavailable (OCPIPushCdrLock (tenantID tenant) tid)]\<rparr>))"
  by (simp add: processTenant_def tryProcessTenant_def pushCdr_def acquireOCPIPushCpoCdrsLock_def
      acquireOCPIPushCdrLock_def acquire_def invoke_def andThen_def tryCatch_def ok_def)

theorem unavailable_lock_is_skipped_witness:
  "processTenant exampleEnv exampleTenant
       (exampleWorld\<lparr>locks := [OCPIPushCpoCdrsLock ''tenant1'', OCPIPushCdrLock ''tenant1'' 1]\<rparr>) =
     (Inr (), exampleWorld\<lparr>locks := [OCPIPushCpoCdrsLock ''tenant1'', OCPIPushCdrLock ''tenant1'' 1],
                           trace := [Call (AcquireLock (OCPIPushCpoCdrsLock ''tenant1'')),
                                     Unavailable (OCPIPushCpoCdrsLock ''tenant1'')]\<rparr>)
   \<and> pushCdr exampleEnv exampleTenant 1
       (exampleWorld\<lparr>locks := [OCPIPushCpoCdrsLock ''tenant1'', OCPIPushCdrLock ''tenant1'' 1]\<rparr>) =
     (Inr (), exampleWorld\<lparr>locks := [OCPIPushCpoCdrsLock ''tenant1'', OCPIPushCdrLock ''tenant1'' 1],
                           trace := [Call (AcquireLock (OCPIPushCdrLock ''tenant1'' 1)),
                                     Unavailable (OCPIPushCdrLock ''tenant1'' 1)]\<rparr>)"
proof -
  let ?w = "exampleWorld\<lparr>locks := [OCPIPushCpoCdrsLock ''tenant1'', OCPIPushCdrLock ''tenant1'' 1]\<rparr>"
  have h1: "isTenantComponentActive exampleTenant ''ocpi''"
    by (simp add: isTenantComponentActive_def exampleTenant_def)
  have h2: "tenantID exampleTenant = ''tenant1''"
    by (simp add: exampleTenant_def)
  have h3: "throws exampleEnv es c = None" for es c
    by (simp add: exampleEnv_def)
  have h4: "trace ?w = []" "locks ?w = [OCPIPushCpoCdrsLock ''tenant1'', OCPIPushCdrLock ''tenant1'' 1]"
    by (simp_all add: exampleWorld_def)
  from unavailable_lock_is_skipped [of exampleTenant ?w exampleEnv 1 "[]"] h1 h2 h3 h4
  show ?thesis by simp
qed

text \<open>
  C6. In every run of \<open>processTenant\<close>, and in every round of the candidate loop, each
  lock is released exactly as many times as it was acquired, whatever the state, whatever
  the lock manager answers and whichever calls throw. When a round has acquired the lock
  of its transaction, its events are the acquisition, then the events of the work on the
  transaction (whether it succeeds or throws), then the release of that lock as the last
  event; the work acquires and releases no lock, and the lock is released once. When a
  run has acquired the tenant-wide lock, its events are the acquisition, then the events
  of the query and of the candidate loop (whether they succeed or throw), then the
  release of that lock, after which no lock is acquired or released; the query and the
  loop do not release the tenant-wide lock, and it is released once.
\<close>

theorem locks_are_released:
  "count_list (runEvents w (snd (processTenant env tenant w))) (Call (ReleaseLock k))
     = count_list (runEvents w (snd (processTenant env tenant w))) (Acquired k)
   \<and> count_list (runEvents w (snd (pushCdr env tenant tid w))) (Call (ReleaseLock k))
     = count_list (runEvents w (snd (pushCdr env tenant tid w))) (Acquired k)
   \<and> (throws env (trace w) (AcquireLock (OCPIPushCdrLock (tenantID tenant) tid)) = None
       \<and> OCPIPushCdrLock (tenantID tenant) tid \<notin> set (locks w)
      \<longrightarrow>
        trace (snd (pushCdr env tenant tid w))
          = trace (snd (workOfRound env tid (afterAcquire (OCPIPushCdrLock (tenantID tenant) tid) w)))
              @ [Call (ReleaseLock (OCPIPushCdrLock (tenantID tenant) tid))]
        \<and> noLockEvents (runEvents (afterAcquire (OCPIPushCdrLock (tenantID tenant) tid) w)
             (snd (workOfRound env tid (afterAcquire (OCPIPushCdrLock (tenantID tenant) tid) w))))
        \<and> count_list (runEvents w (snd (pushCdr env tenant tid w)))
             (Call (ReleaseLock (OCPIPushCdrLock (tenantID tenant) tid))) = 1)
   \<and> (isTenantComponentActive tenant ''ocpi''
       \<and> throws env (trace w) (AcquireLock (OCPIPushCpoCdrsLock (tenantID tenant))) = None
       \<and> OCPIPushCpoCdrsLock (tenantID tenant) \<notin> set (locks w)
      \<longrightarrow>
        (\<exists>tail. trace (snd (processTenant env tenant w))
            = trace (snd (pushCdrs env tenant (afterAcquire (OCPIPushCpoCdrsLock (tenantID tenant)) w)))
                @ Call (ReleaseLock (OCPIPushCpoCdrsLock (tenantID tenant))) # tail
          \<and> noLockEvents tail)
        \<and> noTenantLockEvents (runEvents (afterAcquire (OCPIPushCpoCdrsLock (tenantID tenant)) w)
             (snd (pushCdrs env tenant (afterAcquire (OCPIPushCpoCdrsLock (tenantID tenant)) w))))
        \<and> count_list (runEvents w (snd (processTenant env tenant w)))
             (Call (ReleaseLock (OCPIPushCpoCdrsLock (tenantID tenant)))) = 1)"
proof -
  have counts: "count_list (runEvents w (snd (processTenant env tenant w))) (Call (ReleaseLock k))
     = count_list (runEvents w (snd (processTenant env tenant w))) (Acquired k)
   \<and> count_list (runEvents w (snd (pushCdr env tenant tid w))) (Call (ReleaseLock k))
     = count_list (runEvents w (snd (pushCdr env tenant tid w))) (Acquired k)"
    using emits_runEvents [OF balanced_processTenant, of w env tenant]
      emits_runEvents [OF balanced_pushCdr, of w env tenant tid]
    by (simp add: balancedEvents_def)
  from counts round_releases_last [of env w tenant tid] run_releases_last [of tenant env w]
  show ?thesis by blast
qed

text \<open>
  In the example the roaming finalization throws: the round for transaction 1 catches
  the exception, logs the failure and releases the lock of the transaction as its last
  event, and the run releases the tenant-wide lock once.
\<close>

theorem locks_are_released_witness:
  "trace (snd (pushCdr roamingFailsEnv exampleTenant 1 exampleWorld)) =
     [Call (AcquireLock (OCPIPushCdrLock ''tenant1'' 1)),
      Acquired (OCPIPushCdrLock ''tenant1'' 1),
      Call (GetTransaction 1),
      Call (GetChargingStation ''CS1''),
      Call (GetTag ''TAG1''),
      Call (ProcessTransactionRoaming 1),
      LogError (FailedToPushCdr 1),
      Call (ReleaseLock (OCPIPushCdrLock ''tenant1'' 1))]
   \<and> count_list (runEvents exampleWorld (snd (pushCdr roamingFailsEnv exampleTenant 1 exampleWorld)))
        (Call (ReleaseLock (OCPIPushCdrLock ''tenant1'' 1))) = 1
   \<and> count_list (runEvents exampleWorld (snd (processTenant roamingFailsEnv exampleTenant exampleWorld)))
        (Call (ReleaseLock (OCPIPushCpoCdrsLock ''tenant1''))) = 1"
proof -
  have h1: "isTenantComponentActive exampleTenant ''ocpi''"
    by (simp add: isTenantComponentActive_def exampleTenant_def)
  have h2: "tenantID exampleTenant = ''tenant1''"
    by (simp add: exampleTenant_def)
  have h3: "throws roamingFailsEnv es (AcquireLock l) = None" for es l
    by (simp add: roamingFailsEnv_def)
  have h4: "locks exampleWorld = []"
    by (simp add: exampleWorld_def)
  have work: "trace (snd (workOfRound roamingFailsEnv 1
                 (afterAcquire (OCPIPushCdrLock ''tenant1'' 1) exampleWorld))) =
     [Call (AcquireLock (OCPIPushCdrLock ''tenant1'' 1)),
      Acquired (OCPIPushCdrLock ''tenant1'' 1),
      Call (GetTransaction 1),
      Call (GetChargingStation ''CS1''),
      Call (GetTag ''TAG1''),
      Call (ProcessTransactionRoaming 1),
      LogError (FailedToPushCdr 1)]"
    by (simp add: workOfRound_def afterAcquire_def tryCatch_def andThen_def ok_def invoke_def
        pushCdrOfTransaction_def getTransaction_def getChargingStation_def getTag_def
        processTransactionRoaming_def logError_def emit_def
        roamingFailsEnv_def exampleWorld_def tx1_def tx2_def tx3_def tx4_def)
  from locks_are_released [of exampleWorld roamingFailsEnv exampleTenant
         "OCPIPushCdrLock ''tenant1'' 1" 1] h1 h2 h3 h4 work
  show ?thesis by simp
qed

text \<open>
  C7, as the code has it. An exception that leaves the body of the run is caught and
  handed to \<open>Logging.logActionExceptionMessage\<close>: when that call returns,
  \<open>processTenant\<close> returns normally and the exception stands in the log; when the body
  returns, \<open>processTenant\<close> returns as the body does. An exception leaves
  \<open>processTenant\<close> only when that log call itself throws. So \<open>processTenant\<close> returns
  normally from every state, for every tenant, in every environment in which that log
  call does not throw.
\<close>

theorem processTenant_catches_and_logs:
  "(fst (tryProcessTenant env tenant w) = Inr () \<longrightarrow>
      processTenant env tenant w = tryProcessTenant env tenant w)
   \<and> (tryProcessTenant env tenant w = (Inl e, w1)
       \<and> throws env (trace w1) (LogActionExceptionMessage e) = None \<longrightarrow>
      processTenant env tenant w =
        (Inr (), w1\<lparr>trace := trace w1 @ [Call (LogActionExceptionMessage e), LogActionException e]\<rparr>))
   \<and> (tryProcessTenant env tenant w = (Inl e, w1)
       \<and> throws env (trace w1) (LogActionExceptionMessage e) = Some e' \<longrightarrow>
      processTenant env tenant w =
        (Inl e', w1\<lparr>trace := trace w1 @ [Call (LogActionExceptionMessage e)]\<rparr>))
   \<and> ((\<forall>es e. throws env es (LogActionExceptionMessage e) = None) \<longrightarrow>
      fst (processTenant env tenant w) = Inr ())"
  using processTenant_cases [of env tenant w e w1 e'] processTenant_returns [of env tenant w]
  by blast

text \<open>
  In the example the aggregation throws: the exception leaves the body of the run after
  the release of the tenant-wide lock, is caught and logged, and \<open>processTenant\<close>
  returns normally.
\<close>

theorem processTenant_catches_and_logs_witness:
  "tryProcessTenant aggregateFailsEnv exampleTenant exampleWorld =
     (Inl (Failure ''database down''),
      exampleWorld\<lparr>trace := [Call (AcquireLock (OCPIPushCpoCdrsLock ''tenant1'')),
                              Acquired (OCPIPushCpoCdrsLock ''tenant1''),
                              Call AggregateTransactions,
                              Call (ReleaseLock (OCPIPushCpoCdrsLock ''tenant1''))]\<rparr>)
   \<and> processTenant aggregateFailsEnv exampleTenant exampleWorld =
     (Inr (),
      exampleWorld\<lparr>trace := [Call (AcquireLock (OCPIPushCpoCdrsLock ''tenant1'')),
                              Acquired (OCPIPushCpoCdrsLock ''tenant1''),
                              Call AggregateTransactions,
                              Call (ReleaseLock (OCPIPushCpoCdrsLock ''tenant1'')),
                              Call (LogActionExceptionMessage (Failure ''database down'')),
                              LogActionException (Failure ''database down'')]\<rparr>)"
proof -
  let ?w1 = "exampleWorld\<lparr>trace := [Call (AcquireLock (OCPIPushCpoCdrsLock ''tenant1'')),
                              Acquired (OCPIPushCpoCdrsLock ''tenant1''),
                              Call AggregateTransactions,
                              Call (ReleaseLock (OCPIPushCpoCdrsLock ''tenant1''))]\<rparr>"
  have body: "tryProcessTenant aggregateFailsEnv exampleTenant exampleWorld =
     (Inl (Failure ''database down''), ?w1)"
    by (simp add: tryProcessTenant_def isTenantComponentActive_def acquireOCPIPushCpoCdrsLock_def
        acquire_def release_def invoke_def andThen_def tryFinally_def pushCdrs_def
        aggregateTransactions_def aggregateFailsEnv_def exampleTenant_def exampleWorld_def)
  have log: "throws aggregateFailsEnv (trace ?w1) (LogActionExceptionMessage (Failure ''database down'')) = None"
    by (simp add: aggregateFailsEnv_def)
  from processTenant_catches_and_logs
         [of aggregateFailsEnv exampleTenant exampleWorld "Failure ''database down''" ?w1]
       body log
  show ?thesis by simp
qed

text \<open>
  C7 as stated fails. In the example the aggregation throws and the log call of the
  outermost handler throws as well: the exception of the log call leaves
  \<open>processTenant\<close>.
\<close>

theorem processTenant_throws_when_log_throws:
  "processTenant databaseDownEnv exampleTenant exampleWorld =
     (Inl (Failure ''log storage down''),
      exampleWorld\<lparr>trace := [Call (AcquireLock (OCPIPushCpoCdrsLock ''tenant1'')),
                              Acquired (OCPIPushCpoCdrsLock ''tenant1''),
                              Call AggregateTransactions,
                              Call (ReleaseLock (OCPIPushCpoCdrsLock ''tenant1'')),
                              Call (LogActionExceptionMessage (Failure ''database down''))]\<rparr>)"
  by (simp add: processTenant_def tryProcessTenant_def tryCatch_def logActionExceptionMessage_def
      isTenantComponentActive_def acquireOCPIPushCpoCdrsLock_def
      acquire_def release_def invoke_def andThen_def tryFinally_def pushCdrs_def
      aggregateTransactions_def databaseDownEnv_def exampleTenant_def exampleWorld_def)

text \<open>
  C8. When the query for the candidates returns, the ids it returns are exactly the ids
  of the stored transactions that have a stop, have roaming data, and have no CDR in
  their roaming data. And a run of \<open>processTenant\<close> starts a round of the candidate loop
  (it asks for the transaction's lock) only for a transaction that has these three
  properties in the state the run starts from.
\<close>

theorem candidates_are_finished_without_cdr:
  "(aggregateTransactions env w = (Inr ids, w') \<longrightarrow>
      (tid \<in> set ids \<longleftrightarrow>
         (\<exists>t \<in> set (transactions w). txID t = tid \<and> stop t \<noteq> None \<and>
            (\<exists>od. ocpiData t = Some od \<and> cdr od = None))))
   \<and> (Call (AcquireLock (OCPIPushCdrLock tn tid'))
         \<in> set (runEvents w (snd (processTenant env tenant w))) \<longrightarrow>
      (\<exists>t \<in> set (transactions w). txID t = tid' \<and> stop t \<noteq> None \<and>
          (\<exists>od. ocpiData t = Some od \<and> cdr od = None)))"
proof -
  have m: "matchFinishedWithNoCdr t \<longleftrightarrow>
      (stop t \<noteq> None \<and> (\<exists>od. ocpiData t = Some od \<and> cdr od = None))" for t
    by (cases "ocpiData t") (simp_all add: matchFinishedWithNoCdr_def)
  have c: "n \<in> set (candidateIDs w) \<longleftrightarrow>
      (\<exists>t \<in> set (transactions w). txID t = n \<and> stop t \<noteq> None \<and>
          (\<exists>od. ocpiData t = Some od \<and> cdr od = None))" for n
    by (auto simp: candidateIDs_def m)
  have query: "aggregateTransactions env w = (Inr ids, w') \<longrightarrow> ids = candidateIDs w"
    by (auto simp: aggregateTransactions_def andThen_def invoke_def candidateIDs_def
        split: option.splits)
  have run: "Call (AcquireLock (OCPIPushCdrLock tn tid'))
         \<in> set (runEvents w (snd (processTenant env tenant w))) \<longrightarrow> tid' \<in> set (candidateIDs w)"
    using rounds_processTenant [of w env tenant] by (simp add: roundsOnly_def)
  from query run c [of tid] c [of tid'] show ?thesis by blast
qed

text \<open>
  In the example, of the four stored transactions only transaction 1 is a candidate: the
  query returns its id, and the run starts a round for it and none for transaction 2.
\<close>

theorem candidates_are_finished_without_cdr_witness:
  "aggregateTransactions exampleEnv exampleWorld =
     (Inr [1], exampleWorld\<lparr>trace := [Call AggregateTransactions]\<rparr>)
   \<and> Call (AcquireLock (OCPIPushCdrLock ''tenant1'' 1))
       \<in> set (runEvents exampleWorld (snd (processTenant exampleEnv exampleTenant exampleWorld)))
   \<and> Call (AcquireLock (OCPIPushCdrLock ''tenant1'' 2))
       \<notin> set (runEvents exampleWorld (snd (processTenant exampleEnv exampleTenant exampleWorld)))
   \<and> tx1 \<in> set (transactions exampleWorld) \<and> stop tx1 = Some 100
   \<and> ocpiData tx1 = Some \<lparr>session = ''S1'', cdr = None\<rparr>"
proof -
  have h: "aggregateTransactions exampleEnv exampleWorld =
     (Inr [1], exampleWorld\<lparr>trace := [Call AggregateTransactions]\<rparr>)"
    by (simp add: aggregateTransactions_def andThen_def invoke_def exampleEnv_def
        exampleWorld_def matchFinishedWithNoCdr_def tx1_def tx2_def tx3_def tx4_def)
  have r1: "Call (AcquireLock (OCPIPushCdrLock ''tenant1'' 1))
       \<in> set (runEvents exampleWorld (snd (processTenant exampleEnv exampleTenant exampleWorld)))"
    by (simp add: example_run)
  have t: "transactions exampleWorld = [tx1, tx2, tx3, tx4]"
    by (simp add: exampleWorld_def)
  have no2: "\<not> (\<exists>t \<in> set (transactions exampleWorld). txID t = 2 \<and> stop t \<noteq> None \<and>
          (\<exists>od. ocpiData t = Some od \<and> cdr od = None))"
    by (simp add: t tx1_def tx2_def tx3_def tx4_def)
  from candidates_are_finished_without_cdr
         [of exampleEnv exampleWorld "[1]" "exampleWorld\<lparr>trace := [Call AggregateTransactions]\<rparr>"
             1 "''tenant1''" 2 exampleTenant]
       no2
  have r2: "Call (AcquireLock (OCPIPushCdrLock ''tenant1'' 2))
       \<notin> set (runEvents exampleWorld (snd (processTenant exampleEnv exampleTenant exampleWorld)))"
    by blast
  have "tx1 \<in> set (transactions exampleWorld) \<and> stop tx1 = Some 100
     \<and> ocpiData tx1 = Some \<lparr>session = ''S1'', cdr = None\<rparr>"
    by (simp add: t tx1_def)
  with h r1 r2 show ?thesis by blast
qed

section \<open>Lemmas on the client\<close>

lemma find_append_T:
  "find P (xs @ ys) = (case find P xs of None \<Rightarrow> find P ys | Some x \<Rightarrow> Some x)"
  by (induction xs) auto

lemma processEvse_frame:
  "sites (snd (processEvse p location area evse st)) = sites st
   \<and> siteAreas (snd (processEvse p location area evse st)) = siteAreas st
   \<and> existingSites (snd (processEvse p location area evse st)) = existingSites st"
  by (simp add: processEvse_def raise_def deleteChargingStation_def saveChargingStation_def
      saveChargingStationOcpiData_def split: option.splits)

lemma processEvses_frame:
  "sites (snd (forEach (processEvse p location area) es st)) = sites st
   \<and> siteAreas (snd (forEach (processEvse p location area) es st)) = siteAreas st
   \<and> existingSites (snd (forEach (processEvse p location area) es st)) = existingSites st"
proof (induction es arbitrary: st)
  case Nil
  then show ?case by (simp add: ok_def)
next
  case (Cons e es)
  obtain r st1 where e: "processEvse p location area e st = (r, st1)"
    by (cases "processEvse p location area e st")
  with processEvse_frame [of p location area e st]
  have f: "sites st1 = sites st" "siteAreas st1 = siteAreas st" "existingSites st1 = existingSites st"
    by simp_all
  show ?case
  proof (cases r)
    case (Inl err)
    with e f show ?thesis by (simp add: andThen_def)
  next
    case (Inr u)
    with e f Cons.IH [of st1] show ?thesis by (simp add: andThen_def)
  qed
qed

lemma handleSite_again:
  assumes "handleSite p ep location company st = (site, st1)"
  shows "find (\<lambda>s. site_name s = siteNameOf p ep location) (existingSites st1) = Some site"
  using assms
  by (auto simp: handleSite_def saveSite_def find_append_T split: option.splits)

lemma handleSiteArea_again:
  assumes "handleSiteArea p location site st = (area, st1)"
  shows "filter (\<lambda>a. area_siteID a \<in> set [site_id site] \<and> area_name a = siteAreaNameOf p site location
            \<and> area_issuer a = False) (siteAreas st1) \<noteq> []"
  using assms
  by (auto simp: handleSiteArea_def getSiteAreas_def saveSiteArea_def split: list.splits)

lemma handleSite_found:
  assumes "find (\<lambda>s. site_name s = siteNameOf p ep location) (existingSites st) = Some site"
  shows "handleSite p ep location company st = (site, st)"
  using assms by (simp add: handleSite_def)

lemma handleSiteArea_found:
  assumes "filter (\<lambda>a. area_siteID a \<in> set [site_id site] \<and> area_name a = siteAreaNameOf p site location
            \<and> area_issuer a = False) (siteAreas st) \<noteq> []"
  shows "snd (handleSiteArea p location site st) = st"
  using assms by (auto simp: handleSiteArea_def getSiteAreas_def split: list.splits)

lemma processLocation_replay:
  "sites (snd (processLocation p ep location company (snd (processLocation p ep location company st))))
     = sites (snd (processLocation p ep location company st))
   \<and> siteAreas (snd (processLocation p ep location company (snd (processLocation p ep location company st))))
     = siteAreas (snd (processLocation p ep location company st))
   \<and> existingSites (snd (processLocation p ep location company (snd (processLocation p ep location company st))))
     = existingSites (snd (processLocation p ep location company st))"
proof -
  obtain site st1 where hs: "handleSite p ep location company st = (site, st1)"
    by (cases "handleSite p ep location company st")
  obtain area st2 where ha: "handleSiteArea p location site st1 = (area, st2)"
    by (cases "handleSiteArea p location site st1")
  define st3 where "st3 = snd (forEach (processEvse p location area) (evses location) st2)"
  have p1: "snd (processLocation p ep location company st) = st3"
    using hs ha by (simp add: processLocation_def st3_def)
  have f3: "sites st3 = sites st2" "siteAreas st3 = siteAreas st2" "existingSites st3 = existingSites st2"
    using processEvses_frame [of p location area "evses location" st2] by (simp_all add: st3_def)
  have e2: "existingSites st2 = existingSites st1"
    using ha by (auto simp: handleSiteArea_def saveSiteArea_def split: list.splits)
  have "find (\<lambda>s. site_name s = siteNameOf p ep location) (existingSites st3) = Some site"
    using handleSite_again [OF hs] f3 e2 by simp
  then have hs': "handleSite p ep location company st3 = (site, st3)"
    by (rule handleSite_found)
  have "filter (\<lambda>a. area_siteID a \<in> set [site_id site] \<and> area_name a = siteAreaNameOf p site location
            \<and> area_issuer a = False) (siteAreas st3) \<noteq> []"
    using handleSiteArea_again [OF ha] f3 by simp
  then have ha': "snd (handleSiteArea p location site st3) = st3"
    by (rule handleSiteArea_found)
  obtain area' where ha'': "handleSiteArea p location site st3 = (area', st3)"
    using ha' by (cases "handleSiteArea p location site st3") simp
  have "snd (processLocation p ep location company st3)
      = snd (forEach (processEvse p location area') (evses location) st3)"
    using hs' ha'' by (simp add: processLocation_def)
  then show ?thesis
    using processEvses_frame [of p location area' "evses location" st3] p1 by simp
qed

lemma handleSite_refreshed:
  assumes "existingSites st = getSites (company_id company) st"
    and "handleSite p ep location company st = (site, st1)"
  shows "existingSites st1 = getSites (company_id company) st1"
  using assms
  by (auto simp: handleSite_def saveSite_def getSites_def split: option.splits)

lemma processLocation_refreshed:
  assumes "existingSites st = getSites (company_id company) st"
  shows "existingSites (snd (processLocation p ep location company st))
     = getSites (company_id company) (snd (processLocation p ep location company st))"
proof -
  obtain site st1 where hs: "handleSite p ep location company st = (site, st1)"
    by (cases "handleSite p ep location company st")
  obtain area st2 where ha: "handleSiteArea p location site st1 = (area, st2)"
    by (cases "handleSiteArea p location site st1")
  define st3 where "st3 = snd (forEach (processEvse p location area) (evses location) st2)"
  have p1: "snd (processLocation p ep location company st) = st3"
    using hs ha by (simp add: processLocation_def st3_def)
  have f3: "sites st3 = sites st2" "existingSites st3 = existingSites st2"
    using processEvses_frame [of p location area "evses location" st2] by (simp_all add: st3_def)
  have e2: "existingSites st2 = existingSites st1" "sites st2 = sites st1"
    using ha by (auto simp: handleSiteArea_def saveSiteArea_def split: list.splits)
  from handleSite_refreshed [OF assms hs] f3 e2 p1 show ?thesis
    by (simp add: getSites_def)
qed

lemma processLocation_fresh:
  assumes r: "existingSites st = getSites (company_id company) st"
    and nosite: "\<forall>s \<in> set (existingSites st). site_name s \<noteq> siteNameOf p ep location"
    and noarea: "\<forall>a \<in> set (siteAreas st).
        area_name a \<noteq> siteNameOf p ep location @ OCPI_SEPARATOR p @ locationID location"
  shows "length (filter (\<lambda>s. site_name s = siteNameOf p ep location \<and> site_companyID s = company_id company)
           (sites (snd (processLocation p ep location company st)))) = 1
     \<and> length (filter (\<lambda>a. area_name a = siteNameOf p ep location @ OCPI_SEPARATOR p @ locationID location)
           (siteAreas (snd (processLocation p ep location company st)))) = 1"
proof -
  let ?n = "siteNameOf p ep location"
  let ?site = "\<lparr>site_id = nextID st, site_name = ?n, site_companyID = company_id company,
                site_issuer = False\<rparr>"
  define st1 where "st1 = st\<lparr>sites := sites st @ [?site], nextID := Suc (nextID st),
     existingSites := existingSites st @ [?site]\<rparr>"
  have "find (\<lambda>s. site_name s = ?n) (existingSites st) = None"
    using nosite by (simp add: find_None_iff)
  then have hs: "handleSite p ep location company st = (?site, st1)"
    by (simp add: handleSite_def saveSite_def st1_def)
  have an: "siteAreaNameOf p ?site location = ?n @ OCPI_SEPARATOR p @ locationID location"
    by (simp add: siteAreaNameOf_def)
  let ?area = "\<lparr>area_id = Suc (nextID st), area_name = ?n @ OCPI_SEPARATOR p @ locationID location,
      area_siteID = nextID st, area_issuer = False\<rparr>"
  define st2 where "st2 = st1\<lparr>siteAreas := siteAreas st @ [?area], nextID := Suc (Suc (nextID st))\<rparr>"
  have nof: "filter (\<lambda>a. area_name a = ?n @ OCPI_SEPARATOR p @ locationID location) (siteAreas st) = []"
    using noarea by (simp add: filter_empty_conv)
  have "filter (\<lambda>a. area_siteID a = nextID st \<and> area_name a = ?n @ OCPI_SEPARATOR p @ locationID location
          \<and> \<not> area_issuer a) (siteAreas st) = []"
    using noarea by (simp add: filter_empty_conv)
  then have ha: "handleSiteArea p location ?site st1 = ((?area, None), st2)"
    by (simp add: handleSiteArea_def getSiteAreas_def saveSiteArea_def an st1_def st2_def)
  define st3 where "st3 = snd (forEach (processEvse p location (?area, None)) (evses location) st2)"
  have p1: "snd (processLocation p ep location company st) = st3"
    using hs ha by (simp add: processLocation_def st3_def)
  have f3: "sites st3 = sites st2" "siteAreas st3 = siteAreas st2"
    using processEvses_frame [of p location "(?area, None)" "evses location" st2] by (simp_all add: st3_def)
  have "filter (\<lambda>s. site_name s = ?n \<and> site_companyID s = company_id company) (sites st) = []"
    using nosite r by (auto simp: filter_empty_conv getSites_def)
  then have "length (filter (\<lambda>s. site_name s = ?n \<and> site_companyID s = company_id company) (sites st3)) = 1"
    using f3 by (simp add: st2_def st1_def)
  moreover have "length (filter (\<lambda>a. area_name a = ?n @ OCPI_SEPARATOR p @ locationID location) (siteAreas st3)) = 1"
    using f3 nof by (simp add: st2_def st1_def)
  ultimately show ?thesis using p1 by simp
qed






lemma pullPages_fold:
  assumes "pullPages get worker fuel url s pages = Some (r, s', pages')"
  shows "\<exists>new. pages' = pages @ new \<and> s' = fold worker (concat new) s"
  using assms
proof (induction fuel arbitrary: url s pages)
  case 0
  then show ?case by simp
next
  case (Suc fuel)
  show ?case
  proof (cases "get url")
    case (Inl e)
    with Suc.prems have "pages' = pages @ [] \<and> s' = fold worker (concat []) s" by simp
    then show ?thesis by blast
  next
    case (Inr response)
    let ?s1 = "fold worker (data response) s"
    let ?p1 = "pages @ [data response]"
    show ?thesis
    proof (cases "\<exists>next. nextUrl response = Some next \<and> next \<noteq> [] \<and> next \<noteq> url")
      case True
      then obtain "next" where n: "nextUrl response = Some next" "next \<noteq> []" "next \<noteq> url" by blast
      with Inr Suc.prems have "pullPages get worker fuel next ?s1 ?p1 = Some (r, s', pages')"
        by simp
      from Suc.IH [OF this] obtain new where "pages' = ?p1 @ new" "s' = fold worker (concat new) ?s1"
        by blast
      then have "pages' = pages @ (data response # new) \<and> s' = fold worker (concat (data response # new)) s"
        by simp
      then show ?thesis by blast
    next
      case False
      with Inr Suc.prems have "pages' = ?p1 \<and> s' = ?s1"
        by (auto split: option.splits if_splits)
      then have "pages' = pages @ [data response] \<and> s' = fold worker (concat [data response]) s"
        by simp
      then show ?thesis by blast
    qed
  qed
qed

lemma fold_pullSession:
  "success (fold (pullSession p) xs r) = success r + length (filter (\<lambda>x. updateTransaction p x = None) xs)
   \<and> failure (fold (pullSession p) xs r) = failure r + length (filter (\<lambda>x. updateTransaction p x \<noteq> None) xs)
   \<and> total (fold (pullSession p) xs r) = total r
   \<and> objectIDsInFailure (fold (pullSession p) xs r) = objectIDsInFailure r"
  by (induction xs arbitrary: r) (auto simp: pullSession_def split: option.splits)

lemma fold_pullCdr:
  "success (fold (pullCdr p) xs r) = success r + length (filter (\<lambda>x. processCdr p x = None) xs)
   \<and> failure (fold (pullCdr p) xs r) = failure r + length (filter (\<lambda>x. processCdr p x \<noteq> None) xs)
   \<and> total (fold (pullCdr p) xs r) = total r
   \<and> objectIDsInFailure (fold (pullCdr p) xs r) = objectIDsInFailure r"
  by (induction xs arbitrary: r) (auto simp: pullCdr_def split: option.splits)

lemma pullLocation_step:
  "success (fst (pullLocation p ep c x s)) + failure (fst (pullLocation p ep c x s))
      = Suc (success (fst s) + failure (fst s))
   \<and> total (fst (pullLocation p ep c x s)) = total (fst s)
   \<and> objectIDsInFailure (fst (pullLocation p ep c x s)) = objectIDsInFailure (fst s)"
  by (simp add: pullLocation_def split: prod.splits sum.splits)

lemma fold_pullLocation:
  "success (fst (fold (pullLocation p ep c) xs s)) + failure (fst (fold (pullLocation p ep c) xs s))
      = success (fst s) + failure (fst s) + length xs
   \<and> total (fst (fold (pullLocation p ep c) xs s)) = total (fst s)
   \<and> objectIDsInFailure (fst (fold (pullLocation p ep c) xs s)) = objectIDsInFailure (fst s)"
proof (induction xs arbitrary: s)
  case Nil
  show ?case by simp
next
  case (Cons x xs)
  from Cons.IH [of "pullLocation p ep c x s"] pullLocation_step [of p ep c x s]
  show ?case by simp
qed

lemma pushTokenWorker_step:
  "total (pushTokenWorker p x r) = Suc (total r)
   \<and> success (pushTokenWorker p x r) = success r + (if pushToken p x = None then 1 else 0)
   \<and> failure (pushTokenWorker p x r) = failure r + (if pushToken p x = None then 0 else 1)
   \<and> objectIDsInFailure (pushTokenWorker p x r) =
       (if pushToken p x = None then objectIDsInFailure r
        else map_option (\<lambda>ids. ids @ [tokenUid x]) (objectIDsInFailure r))"
  by (cases "pushToken p x") (simp_all add: pushTokenWorker_def)

lemma fold_pushTokenWorker:
  "total (fold (pushTokenWorker p) xs r) = total r + length xs
   \<and> success (fold (pushTokenWorker p) xs r) = success r + length (filter (\<lambda>x. pushToken p x = None) xs)
   \<and> failure (fold (pushTokenWorker p) xs r) = failure r + length (filter (\<lambda>x. pushToken p x \<noteq> None) xs)
   \<and> objectIDsInFailure (fold (pushTokenWorker p) xs r) =
       map_option (\<lambda>ids. ids @ map tokenUid (filter (\<lambda>x. pushToken p x \<noteq> None) xs)) (objectIDsInFailure r)"
proof (induction xs arbitrary: r)
  case Nil
  show ?case by (simp add: option.map_ident)
next
  case (Cons x xs)
  from Cons.IH [of "pushTokenWorker p x r"] pushTokenWorker_step [of p x r]
  show ?case by (cases "objectIDsInFailure r") (simp_all del: not_None_eq)
qed

lemma pushTokensLoop_fold:
  "0 < DB_RECORD_COUNT_DEFAULT p \<Longrightarrow>
   pushTokensLoop p st currentSkip r = fold (pushTokenWorker p) (drop currentSkip (localTokens st)) r"
proof (induction p st currentSkip r rule: pushTokensLoop.induct)
  case (1 p st currentSkip result)
  let ?n = "DB_RECORD_COUNT_DEFAULT p"
  let ?page = "getTokens ?n currentSkip st"
  show ?case
  proof (cases "?page = []")
    case True
    with "1.prems" have "drop currentSkip (localTokens st) = []"
      by (auto simp: getTokens_def)
    with True show ?thesis by (subst pushTokensLoop.simps) simp
  next
    case False
    have "pushTokensLoop p st currentSkip result
        = pushTokensLoop p st (currentSkip + ?n) (fold (pushTokenWorker p) ?page result)"
      using False by (subst pushTokensLoop.simps) simp
    also have "\<dots> = fold (pushTokenWorker p) (drop (currentSkip + ?n) (localTokens st))
                      (fold (pushTokenWorker p) ?page result)"
      using "1.IH" [OF False "1.prems"] .
    also have "\<dots> = fold (pushTokenWorker p) (?page @ drop ?n (drop currentSkip (localTokens st))) result"
      by (simp add: add.commute)
    also have "?page @ drop ?n (drop currentSkip (localTokens st)) = drop currentSkip (localTokens st)"
      unfolding getTokens_def by (rule append_take_drop_id)
    finally show ?thesis .
  qed
qed

lemma set_uniq: "set (uniq xs) = set xs"
  by (induction xs rule: uniq.induct) auto

lemma distinct_uniq: "distinct (uniq xs)"
  by (induction xs rule: uniq.induct) (auto simp: set_uniq)

lemma pullPages_pagesFrom:
  assumes "pullPages get worker fuel url s pages = Some (Inr (), s', pages')"
  shows "\<exists>ps. pages' = pages @ ps \<and> pagesFrom get url ps"
  using assms
proof (induction fuel arbitrary: url s pages)
  case 0
  then show ?case by simp
next
  case (Suc fuel)
  show ?case
  proof (cases "get url")
    case (Inl e)
    with Suc.prems show ?thesis by simp
  next
    case (Inr response)
    show ?thesis
    proof (cases "nextUrl response")
      case None
      with Inr Suc.prems have "pages' = pages @ [data response]" by simp
      moreover from Inr None have "pagesFrom get url [data response]" by (rule lastPage)
      ultimately show ?thesis by blast
    next
      case (Some n)
      show ?thesis
      proof (cases "n \<noteq> [] \<and> n \<noteq> url")
        case True
        with Inr Some Suc.prems
        have "pullPages get worker fuel n (fold worker (data response) s) (pages @ [data response])
            = Some (Inr (), s', pages')" by simp
        from Suc.IH [OF this] obtain ps where ps: "pages' = (pages @ [data response]) @ ps"
          "pagesFrom get n ps" by blast
        from Inr Some True ps(2) have "pagesFrom get url (data response # ps)"
          by (intro nextPage) simp_all
        with ps(1) show ?thesis by simp
      next
        case False
        with Inr Some Suc.prems have p: "pages' = pages @ [data response]" by auto
        from False have "n = [] \<or> n = url" by blast
        then have "pagesFrom get url [data response]"
        proof
          assume "n = []"
          with Inr Some show ?thesis by (intro emptyLink) simp_all
        next
          assume "n = url"
          with Inr Some show ?thesis by (intro sameLink) simp_all
        qed
        with p show ?thesis by blast
      qed
    qed
  qed
qed

lemma pagesFrom_pullPages:
  assumes "pagesFrom get url ps"
  shows "pullPages get worker (length ps) url s pages
     = Some (Inr (), fold worker (concat ps) s, pages @ ps)"
  using assms
proof (induction arbitrary: s pages rule: pagesFrom.induct)
  case (lastPage get url response)
  then show ?case by simp
next
  case (emptyLink get url response)
  then show ?case by simp
next
  case (sameLink get url response)
  then show ?case by simp
next
  case (nextPage get url response n pages')
  then show ?case by simp
qed

lemma pagesFrom_unique:
  assumes "pagesFrom get url ps" and "pagesFrom get url ps'"
  shows "ps = ps'"
  using assms
proof (induction arbitrary: ps' rule: pagesFrom.induct)
  case (lastPage get url response)
  from lastPage(3) lastPage(1,2) show ?case by cases auto
next
  case (emptyLink get url response)
  from emptyLink(3) emptyLink(1,2) show ?case by cases auto
next
  case (sameLink get url response)
  from sameLink(3) sameLink(1,2) show ?case by cases auto
next
  case (nextPage get url response n pages)
  from nextPage(7) nextPage(1-4) nextPage(6) show ?case by cases auto
qed

lemma pullPages_iff:
  "(\<exists>fuel s'. pullPages get worker fuel url s [] = Some (Inr (), s', ps)) \<longleftrightarrow> pagesFrom get url ps"
proof
  assume "\<exists>fuel s'. pullPages get worker fuel url s [] = Some (Inr (), s', ps)"
  then obtain fuel s' where "pullPages get worker fuel url s [] = Some (Inr (), s', ps)" by blast
  from pullPages_pagesFrom [OF this] show "pagesFrom get url ps" by simp
next
  assume "pagesFrom get url ps"
  from pagesFrom_pullPages [OF this, of worker s "[]"]
  show "\<exists>fuel s'. pullPages get worker fuel url s [] = Some (Inr (), s', ps)" by auto
qed

lemma pullSessions_iff:
  "(\<exists>fuel r. pullSessions p fuel = Some (Inr r, ps)) \<longleftrightarrow> pagesFrom (getSessions p) (sessionsUrl p) ps"
proof -
  have "(\<exists>fuel r. pullSessions p fuel = Some (Inr r, ps))
      \<longleftrightarrow> (\<exists>fuel s'. pullPages (getSessions p) (pullSession p) fuel (sessionsUrl p) newResult []
            = Some (Inr (), s', ps))"
  proof
    assume "\<exists>fuel r. pullSessions p fuel = Some (Inr r, ps)"
    then obtain fuel r where f: "pullSessions p fuel = Some (Inr r, ps)" by blast
    then have "\<exists>s'. pullPages (getSessions p) (pullSession p) fuel (sessionsUrl p) newResult []
            = Some (Inr (), s', ps)"
      by (cases "pullPages (getSessions p) (pullSession p) fuel (sessionsUrl p) newResult []")
         (auto simp: pullSessions_def split: sum.splits)
    then show "\<exists>fuel s'. pullPages (getSessions p) (pullSession p) fuel (sessionsUrl p) newResult []
            = Some (Inr (), s', ps)" by blast
  next
    assume "\<exists>fuel s'. pullPages (getSessions p) (pullSession p) fuel (sessionsUrl p) newResult []
            = Some (Inr (), s', ps)"
    then obtain fuel s' where "pullPages (getSessions p) (pullSession p) fuel (sessionsUrl p) newResult []
            = Some (Inr (), s', ps)" by blast
    then have "pullSessions p fuel = Some (Inr (s'\<lparr>total := failure s' + success s'\<rparr>), ps)"
      by (simp add: pullSessions_def)
    then show "\<exists>fuel r. pullSessions p fuel = Some (Inr r, ps)" by blast
  qed
  then show ?thesis by (simp only: pullPages_iff)
qed

lemma pullCdrs_iff:
  "(\<exists>fuel r. pullCdrs p fuel = Some (Inr r, ps)) \<longleftrightarrow> pagesFrom (getCdrs p) (cdrsUrl p) ps"
proof -
  have "(\<exists>fuel r. pullCdrs p fuel = Some (Inr r, ps))
      \<longleftrightarrow> (\<exists>fuel s'. pullPages (getCdrs p) (pullCdr p) fuel (cdrsUrl p) newResult []
            = Some (Inr (), s', ps))"
  proof
    assume "\<exists>fuel r. pullCdrs p fuel = Some (Inr r, ps)"
    then obtain fuel r where f: "pullCdrs p fuel = Some (Inr r, ps)" by blast
    then have "\<exists>s'. pullPages (getCdrs p) (pullCdr p) fuel (cdrsUrl p) newResult []
            = Some (Inr (), s', ps)"
      by (cases "pullPages (getCdrs p) (pullCdr p) fuel (cdrsUrl p) newResult []")
         (auto simp: pullCdrs_def split: sum.splits)
    then show "\<exists>fuel s'. pullPages (getCdrs p) (pullCdr p) fuel (cdrsUrl p) newResult []
            = Some (Inr (), s', ps)" by blast
  next
    assume "\<exists>fuel s'. pullPages (getCdrs p) (pullCdr p) fuel (cdrsUrl p) newResult []
            = Some (Inr (), s', ps)"
    then obtain fuel s' where "pullPages (getCdrs p) (pullCdr p) fuel (cdrsUrl p) newResult []
            = Some (Inr (), s', ps)" by blast
    then have "pullCdrs p fuel = Some (Inr (s'\<lparr>total := failure s' + success s'\<rparr>), ps)"
      by (simp add: pullCdrs_def)
    then show "\<exists>fuel r. pullCdrs p fuel = Some (Inr r, ps)" by blast
  qed
  then show ?thesis by (simp only: pullPages_iff)
qed

lemma pullLocations_iff:
  "(\<exists>fuel r st'. pullLocations p ep partial fuel st = Some (Inr r, st', ps))
     \<longleftrightarrow> pagesFrom (getLocations p) (locationsUrl p partial) ps"
proof -
  obtain company st1 where c: "checkAndGetCompany ep st = (company, st1)"
    by (cases "checkAndGetCompany ep st")
  let ?s = "(newResult, st1\<lparr>existingSites := getSites (company_id company) st1\<rparr>)"
  let ?run = "\<lambda>fuel. pullPages (getLocations p) (pullLocation p ep company) fuel
              (locationsUrl p partial) ?s []"
  have "(\<exists>fuel r st'. pullLocations p ep partial fuel st = Some (Inr r, st', ps))
      \<longleftrightarrow> (\<exists>fuel s'. ?run fuel = Some (Inr (), s', ps))"
  proof
    assume "\<exists>fuel r st'. pullLocations p ep partial fuel st = Some (Inr r, st', ps)"
    then obtain fuel r st' where f: "pullLocations p ep partial fuel st = Some (Inr r, st', ps)"
      by blast
    then have "\<exists>s'. ?run fuel = Some (Inr (), s', ps)"
      using c by (cases "?run fuel") (auto simp: pullLocations_def split: sum.splits)
    then show "\<exists>fuel s'. ?run fuel = Some (Inr (), s', ps)" by blast
  next
    assume "\<exists>fuel s'. ?run fuel = Some (Inr (), s', ps)"
    then obtain fuel s' where "?run fuel = Some (Inr (), s', ps)" by blast
    then have "pullLocations p ep partial fuel st = Some (Inr (fst s'), snd s', ps)"
      using c by (simp add: pullLocations_def)
    then show "\<exists>fuel r st'. pullLocations p ep partial fuel st = Some (Inr r, st', ps)" by blast
  qed
  then show ?thesis by (simp only: pullPages_iff)
qed

lemma three_pages:
  assumes "get u1 = Inr \<lparr>data = P1, nextUrl = Some u2\<rparr>"
    and "get u2 = Inr \<lparr>data = P2, nextUrl = Some u3\<rparr>"
    and "get u3 = Inr \<lparr>data = P3, nextUrl = None\<rparr>"
    and "u2 \<noteq> []" and "u3 \<noteq> []"
  shows "pagesFrom get u1 ps \<longleftrightarrow> ps = [P1, P2, P3]"
proof -
  from assms(2,3) have n23: "u3 \<noteq> u2" by auto
  from assms(1,2) n23 have n12: "u2 \<noteq> u1" by auto
  have p3: "pagesFrom get u3 [P3]"
    using lastPage [of get u3 "\<lparr>data = P3, nextUrl = None\<rparr>"] assms(3) by simp
  have p2: "pagesFrom get u2 [P2, P3]"
    using nextPage [of get u2 "\<lparr>data = P2, nextUrl = Some u3\<rparr>" u3 "[P3]"]
      assms(2,5) n23 p3 by simp
  have "pagesFrom get u1 [P1, P2, P3]"
    using nextPage [of get u1 "\<lparr>data = P1, nextUrl = Some u2\<rparr>" u2 "[P2, P3]"]
      assms(1,4) n12 p2 by simp
  then show ?thesis using pagesFrom_unique by blast
qed

lemma self_page:
  assumes "get u1 = Inr \<lparr>data = P1, nextUrl = Some u1\<rparr>"
  shows "pagesFrom get u1 ps \<longleftrightarrow> ps = [P1]"
proof -
  have "pagesFrom get u1 [P1]"
    using sameLink [of get u1 "\<lparr>data = P1, nextUrl = Some u1\<rparr>"] assms by simp
  then show ?thesis using pagesFrom_unique by blast
qed

lemma pullSessions_summary:
  assumes "pullSessions p fuel = Some (Inr r, pages)"
  shows "total r = success r + failure r \<and> total r = length (concat pages)
     \<and> failure r = length (filter (\<lambda>x. updateTransaction p x \<noteq> None) (concat pages))
     \<and> objectIDsInFailure r = None"
proof -
  let ?run = "pullPages (getSessions p) (pullSession p) fuel (sessionsUrl p) newResult []"
  from assms obtain result where run: "?run = Some (Inr (), result, pages)"
    and r: "r = result\<lparr>total := failure result + success result\<rparr>"
    by (cases ?run) (auto simp: pullSessions_def split: sum.splits)
  from pullPages_fold [OF run] have f: "result = fold (pullSession p) (concat pages) newResult"
    by simp
  note c = fold_pullSession [of p "concat pages" newResult]
  have "length (filter (\<lambda>x. updateTransaction p x = None) (concat pages))
      + length (filter (\<lambda>x. updateTransaction p x \<noteq> None) (concat pages)) = length (concat pages)"
    using sum_length_filter_compl [of "\<lambda>x. updateTransaction p x = None" "concat pages"] by simp
  with c show ?thesis
    unfolding r f by (simp add: newResult_def)
qed

lemma pullCdrs_summary:
  assumes "pullCdrs p fuel = Some (Inr r, pages)"
  shows "total r = success r + failure r \<and> total r = length (concat pages)
     \<and> failure r = length (filter (\<lambda>x. processCdr p x \<noteq> None) (concat pages))
     \<and> objectIDsInFailure r = None"
proof -
  let ?run = "pullPages (getCdrs p) (pullCdr p) fuel (cdrsUrl p) newResult []"
  from assms obtain result where run: "?run = Some (Inr (), result, pages)"
    and r: "r = result\<lparr>total := failure result + success result\<rparr>"
    by (cases ?run) (auto simp: pullCdrs_def split: sum.splits)
  from pullPages_fold [OF run] have f: "result = fold (pullCdr p) (concat pages) newResult"
    by simp
  note c = fold_pullCdr [of p "concat pages" newResult]
  have "length (filter (\<lambda>x. processCdr p x = None) (concat pages))
      + length (filter (\<lambda>x. processCdr p x \<noteq> None) (concat pages)) = length (concat pages)"
    using sum_length_filter_compl [of "\<lambda>x. processCdr p x = None" "concat pages"] by simp
  with c show ?thesis
    unfolding r f by (simp add: newResult_def)
qed

lemma pullLocations_summary:
  assumes "pullLocations p ep partial fuel st = Some (Inr r, st', pages)"
  shows "success r + failure r = length (concat pages) \<and> objectIDsInFailure r = None"
proof -
  obtain company st1 where c: "checkAndGetCompany ep st = (company, st1)"
    by (cases "checkAndGetCompany ep st")
  let ?s = "(newResult, st1\<lparr>existingSites := getSites (company_id company) st1\<rparr>)"
  let ?run = "pullPages (getLocations p) (pullLocation p ep company) fuel
              (locationsUrl p partial) ?s []"
  from assms c obtain s' where run: "?run = Some (Inr (), s', pages)" and r: "r = fst s'"
    by (cases ?run) (auto simp: pullLocations_def split: sum.splits)
  from pullPages_fold [OF run]
  have f: "s' = fold (pullLocation p ep company) (concat pages) ?s" by simp
  from fold_pullLocation [of p ep company "concat pages" ?s] show ?thesis
    unfolding r f by (simp add: newResult_def)
qed

lemma pushTokens_summary:
  assumes "0 < DB_RECORD_COUNT_DEFAULT p" and "pushTokens p ep st = (r, ep', st')"
  shows "total r = success r + failure r \<and> total r = length (localTokens st)
     \<and> failure r = length (filter (\<lambda>x. pushToken p x \<noteq> None) (localTokens st))
     \<and> objectIDsInFailure r = Some (map tokenUid (filter (\<lambda>x. pushToken p x \<noteq> None) (localTokens st)))
     \<and> map_option tokenIDsInFailure (lastPatchJobResult ep')
         = Some (uniq (map tokenUid (filter (\<lambda>x. pushToken p x \<noteq> None) (localTokens st))))"
proof -
  let ?r0 = "\<lparr>success = 0, failure = 0, total = 0, logs = [], objectIDsInFailure = Some []\<rparr>"
  have loop: "pushTokensLoop p st 0 ?r0 = fold (pushTokenWorker p) (localTokens st) ?r0"
    using pushTokensLoop_fold [OF assms(1), of st 0 ?r0] by simp
  from assms(2) have r: "r = fold (pushTokenWorker p) (localTokens st) ?r0"
    and ep': "lastPatchJobResult ep' = Some
        \<lparr>successNbr = success r, failureNbr = failure r, totalNbr = total r,
         tokenIDsInFailure = uniq (case objectIDsInFailure r of None \<Rightarrow> [] | Some ids \<Rightarrow> ids)\<rparr>"
    by (auto simp: pushTokens_def loop)
  note c = fold_pushTokenWorker [of p "localTokens st" ?r0]
  have "length (filter (\<lambda>x. pushToken p x = None) (localTokens st))
      + length (filter (\<lambda>x. pushToken p x \<noteq> None) (localTokens st)) = length (localTokens st)"
    using sum_length_filter_compl [of "\<lambda>x. pushToken p x = None" "localTokens st"] by simp
  with c have "total r = success r + failure r \<and> total r = length (localTokens st)
     \<and> failure r = length (filter (\<lambda>x. pushToken p x \<noteq> None) (localTokens st))
     \<and> objectIDsInFailure r = Some (map tokenUid (filter (\<lambda>x. pushToken p x \<noteq> None) (localTokens st)))"
    unfolding r by simp
  then show ?thesis using ep' by simp
qed

section \<open>The claims on the client\<close>

text \<open>
  C2, as the code has it. The summary returned by \<open>pullSessions\<close> and by \<open>pullCdrs\<close> has
  \<open>total = success + failure\<close>, which is the number of items of the pages fetched, with
  one failure for each item whose processing throws; it carries no list of failed ids.
  The summary returned by \<open>pullLocations\<close> counts each location of the pages fetched as
  a success or a failure and carries no list of failed ids. The summary returned by
  \<open>pushTokens\<close> (for a positive page size) has \<open>total = success + failure\<close>, which is the
  number of local tokens, with one failure for each token whose push throws; its
  \<open>objectIDsInFailure\<close> holds the uid of each failing token, once for each failing token
  and in order, so a uid may stand there more than once; the duplicates are collapsed in
  \<open>tokenIDsInFailure\<close>, which is saved on the endpoint: it has no duplicates and holds
  exactly the uids of the failing tokens.
\<close>

theorem summaries_count_the_items:
  "(pullSessions p fuel = Some (Inr r, pages) \<longrightarrow>
      total r = success r + failure r \<and> total r = length (concat pages)
      \<and> failure r = length (filter (\<lambda>x. updateTransaction p x \<noteq> None) (concat pages))
      \<and> objectIDsInFailure r = None)
   \<and> (pullCdrs p fuel' = Some (Inr r', pages') \<longrightarrow>
      total r' = success r' + failure r' \<and> total r' = length (concat pages')
      \<and> failure r' = length (filter (\<lambda>x. processCdr p x \<noteq> None) (concat pages'))
      \<and> objectIDsInFailure r' = None)
   \<and> (pullLocations p ep partial fuel'' st = Some (Inr r'', st'', pages'') \<longrightarrow>
      success r'' + failure r'' = length (concat pages'') \<and> objectIDsInFailure r'' = None)
   \<and> (0 < DB_RECORD_COUNT_DEFAULT p \<and> pushTokens p ep st = (rt, ept, stt) \<longrightarrow>
      total rt = success rt + failure rt \<and> total rt = length (localTokens st)
      \<and> failure rt = length (filter (\<lambda>x. pushToken p x \<noteq> None) (localTokens st))
      \<and> objectIDsInFailure rt
          = Some (map tokenUid (filter (\<lambda>x. pushToken p x \<noteq> None) (localTokens st)))
      \<and> (\<exists>saved. map_option tokenIDsInFailure (lastPatchJobResult ept) = Some saved
            \<and> distinct saved
            \<and> set saved = tokenUid ` {x \<in> set (localTokens st). pushToken p x \<noteq> None}))"
proof -
  have tokens: "0 < DB_RECORD_COUNT_DEFAULT p \<and> pushTokens p ep st = (rt, ept, stt) \<longrightarrow>
      total rt = success rt + failure rt \<and> total rt = length (localTokens st)
      \<and> failure rt = length (filter (\<lambda>x. pushToken p x \<noteq> None) (localTokens st))
      \<and> objectIDsInFailure rt
          = Some (map tokenUid (filter (\<lambda>x. pushToken p x \<noteq> None) (localTokens st)))
      \<and> (\<exists>saved. map_option tokenIDsInFailure (lastPatchJobResult ept) = Some saved
            \<and> distinct saved
            \<and> set saved = tokenUid ` {x \<in> set (localTokens st). pushToken p x \<noteq> None})"
  proof
    assume a: "0 < DB_RECORD_COUNT_DEFAULT p \<and> pushTokens p ep st = (rt, ept, stt)"
    let ?failed = "map tokenUid (filter (\<lambda>x. pushToken p x \<noteq> None) (localTokens st))"
    from a pushTokens_summary [of p ep st rt ept stt]
    have s: "total rt = success rt + failure rt \<and> total rt = length (localTokens st)
     \<and> failure rt = length (filter (\<lambda>x. pushToken p x \<noteq> None) (localTokens st))
     \<and> objectIDsInFailure rt = Some ?failed
     \<and> map_option tokenIDsInFailure (lastPatchJobResult ept) = Some (uniq ?failed)"
      by blast
    have "distinct (uniq ?failed)" by (rule distinct_uniq)
    moreover have "set (uniq ?failed) = tokenUid ` {x \<in> set (localTokens st). pushToken p x \<noteq> None}"
      by (simp add: set_uniq)
    ultimately show "total rt = success rt + failure rt \<and> total rt = length (localTokens st)
      \<and> failure rt = length (filter (\<lambda>x. pushToken p x \<noteq> None) (localTokens st))
      \<and> objectIDsInFailure rt = Some ?failed
      \<and> (\<exists>saved. map_option tokenIDsInFailure (lastPatchJobResult ept) = Some saved
            \<and> distinct saved
            \<and> set saved = tokenUid ` {x \<in> set (localTokens st). pushToken p x \<noteq> None})"
      using s by blast
  qed
  from pullSessions_summary [of p fuel r pages] pullCdrs_summary [of p fuel' r' pages']
    pullLocations_summary [of p ep partial fuel'' st r'' st'' pages''] tokens
  show ?thesis by blast
qed

text \<open>
  In the example the flows return: three sessions in three pages with one failure, one
  CDR, one location (which fails), and three tokens of which the two with uid \<open>T2\<close> fail.
\<close>

theorem summaries_count_the_items_witness:
  "(\<exists>r pages. pullSessions examplePartner 3 = Some (Inr r, pages)
       \<and> total r = 3 \<and> success r = 2 \<and> failure r = 1 \<and> objectIDsInFailure r = None)
   \<and> (\<exists>r pages. pullCdrs examplePartner 1 = Some (Inr r, pages)
       \<and> total r = 1 \<and> success r + failure r = 1)
   \<and> (\<exists>r st pages. pullLocations examplePartner exampleEndpoint True 1 exampleStorage
          = Some (Inr r, st, pages) \<and> success r + failure r = 1)
   \<and> (\<exists>r ep st. pushTokens examplePartner exampleEndpoint exampleStorage = (r, ep, st)
       \<and> total r = 3 \<and> success r + failure r = 3 \<and> failure r = 2
       \<and> objectIDsInFailure r = Some [''T2'', ''T2''])"
proof -
  obtain rs where s: "pullSessions examplePartner 3 =
      Some (Inr rs, [[OCPISession ''S1''], [OCPISession ''S2''], [OCPISession ''S3'']])"
    by (simp add: pullSessions_def sessionsUrl_def examplePartner_def eval_nat_numeral)
  obtain rc where c: "pullCdrs examplePartner 1 = Some (Inr rc, [[OCPICdr ''C1'']])"
    by (simp add: pullCdrs_def cdrsUrl_def examplePartner_def)
  obtain rl stl where l: "pullLocations examplePartner exampleEndpoint True 1 exampleStorage
      = Some (Inr rl, stl, [[exampleLocation]])"
    by (simp add: pullLocations_def checkAndGetCompany_def getCompany_def exampleStorage_def
        examplePartner_def split: prod.splits sum.splits)
  obtain rt ept stt where t: "pushTokens examplePartner exampleEndpoint exampleStorage = (rt, ept, stt)"
    by (cases "pushTokens examplePartner exampleEndpoint exampleStorage")
  have n: "0 < DB_RECORD_COUNT_DEFAULT examplePartner"
    by (simp add: examplePartner_def)
  have u: "updateTransaction examplePartner (OCPISession ''S1'') = None"
    "updateTransaction examplePartner (OCPISession ''S2'') \<noteq> None"
    "updateTransaction examplePartner (OCPISession ''S3'') = None"
    by (simp_all add: examplePartner_def)
  have k: "localTokens exampleStorage = [OCPIToken ''T1'', OCPIToken ''T2'', OCPIToken ''T2'']"
    by (simp add: exampleStorage_def)
  have f: "pushToken examplePartner (OCPIToken ''T1'') = None"
    "pushToken examplePartner (OCPIToken ''T2'') \<noteq> None"
    by (simp_all add: pushToken_def examplePartner_def)
  note inst = summaries_count_the_items
      [of examplePartner 3 rs "[[OCPISession ''S1''], [OCPISession ''S2''], [OCPISession ''S3'']]"
          1 rc "[[OCPICdr ''C1'']]" exampleEndpoint True 1 exampleStorage rl stl "[[exampleLocation]]"
          rt ept stt]
  from inst s c l t n u k f show ?thesis by simp
qed

text \<open>
  C2 as stated fails. In the example the update of session \<open>S2\<close> throws: the summary
  that \<open>pullSessions\<close> returns counts the failure and has no failed ids at all. And the
  two local tokens with uid \<open>T2\<close> both fail: the summary that \<open>pushTokens\<close> returns lists
  \<open>T2\<close> twice.
\<close>

theorem returned_summary_has_no_collapsed_failed_ids:
  "updateTransaction examplePartner (OCPISession ''S2'') = Some (Failure ''boom'')
   \<and> pullSessions examplePartner 3 =
       Some (Inr \<lparr>success = 2, failure = 1, total = 3,
                  logs = [''Failed to update OCPI Session ID '' @ quoted ''S2'' @ '': boom''],
                  objectIDsInFailure = None\<rparr>,
             [[OCPISession ''S1''], [OCPISession ''S2''], [OCPISession ''S3'']])
   \<and> objectIDsInFailure (fst (pushTokens examplePartner exampleEndpoint exampleStorage))
       = Some [''T2'', ''T2'']"
proof -
  have n: "0 < DB_RECORD_COUNT_DEFAULT examplePartner"
    by (simp add: examplePartner_def)
  let ?r0 = "\<lparr>success = 0, failure = 0, total = 0, logs = [], objectIDsInFailure = Some []\<rparr>"
  have "pushTokensLoop examplePartner exampleStorage 0 ?r0
      = fold (pushTokenWorker examplePartner) (localTokens exampleStorage) ?r0"
    using pushTokensLoop_fold [OF n, of exampleStorage 0 ?r0] by simp
  also have "objectIDsInFailure \<dots> = Some [''T2'', ''T2'']"
    by (simp add: pushTokenWorker_def pushToken_def exampleStorage_def examplePartner_def)
  finally have "objectIDsInFailure (fst (pushTokens examplePartner exampleEndpoint exampleStorage))
       = Some [''T2'', ''T2'']"
    by (simp add: pushTokens_def)
  moreover have "pullSessions examplePartner 3 =
       Some (Inr \<lparr>success = 2, failure = 1, total = 3,
                  logs = [''Failed to update OCPI Session ID '' @ quoted ''S2'' @ '': boom''],
                  objectIDsInFailure = None\<rparr>,
             [[OCPISession ''S1''], [OCPISession ''S2''], [OCPISession ''S3'']])"
    by (simp add: pullSessions_def sessionsUrl_def pullSession_def newResult_def
        examplePartner_def eval_nat_numeral)
  ultimately show ?thesis by (simp add: examplePartner_def)
qed




text \<open>
  C4. For each of the three pull flows, the lists of pages with which the flow can
  return are exactly the pages that following the next links from the flow's first URL
  gives, stopping at the first response with no next link, an empty one, or the URL
  just fetched. Three pages linked \<open>P1\<close>, \<open>P2\<close>, \<open>P3\<close>, the last without a next link, give
  exactly \<open>[P1, P2, P3]\<close>, and the loop returns them after three fetches; a page whose
  next link is its own URL gives exactly \<open>[P1]\<close>, and the loop returns it after one
  fetch.
\<close>

theorem pagination_follows_next_links:
  "((\<exists>fuel r. pullSessions p fuel = Some (Inr r, ps))
       \<longleftrightarrow> pagesFrom (getSessions p) (sessionsUrl p) ps)
   \<and> ((\<exists>fuel r. pullCdrs p fuel = Some (Inr r, ps'))
       \<longleftrightarrow> pagesFrom (getCdrs p) (cdrsUrl p) ps')
   \<and> ((\<exists>fuel r st'. pullLocations p ep partial fuel st = Some (Inr r, st', ps''))
       \<longleftrightarrow> pagesFrom (getLocations p) (locationsUrl p partial) ps'')
   \<and> (get u1 = Inr \<lparr>data = P1, nextUrl = Some u2\<rparr>
       \<and> get u2 = Inr \<lparr>data = P2, nextUrl = Some u3\<rparr>
       \<and> get u3 = Inr \<lparr>data = P3, nextUrl = None\<rparr>
       \<and> u2 \<noteq> [] \<and> u3 \<noteq> []
      \<longrightarrow> (pagesFrom get u1 qs \<longleftrightarrow> qs = [P1, P2, P3])
          \<and> pullPages get worker 3 u1 s [] =
              Some (Inr (), fold worker (P1 @ P2 @ P3) s, [P1, P2, P3]))
   \<and> (get' v1 = Inr \<lparr>data = Q1, nextUrl = Some v1\<rparr>
      \<longrightarrow> (pagesFrom get' v1 qs' \<longleftrightarrow> qs' = [Q1])
          \<and> pullPages get' worker' 1 v1 s' [] = Some (Inr (), fold worker' Q1 s', [Q1]))"
proof -
  have three: "get u1 = Inr \<lparr>data = P1, nextUrl = Some u2\<rparr>
       \<and> get u2 = Inr \<lparr>data = P2, nextUrl = Some u3\<rparr>
       \<and> get u3 = Inr \<lparr>data = P3, nextUrl = None\<rparr>
       \<and> u2 \<noteq> [] \<and> u3 \<noteq> []
      \<longrightarrow> (pagesFrom get u1 qs \<longleftrightarrow> qs = [P1, P2, P3])
          \<and> pullPages get worker 3 u1 s [] =
              Some (Inr (), fold worker (P1 @ P2 @ P3) s, [P1, P2, P3])"
  proof
    assume a: "get u1 = Inr \<lparr>data = P1, nextUrl = Some u2\<rparr>
       \<and> get u2 = Inr \<lparr>data = P2, nextUrl = Some u3\<rparr>
       \<and> get u3 = Inr \<lparr>data = P3, nextUrl = None\<rparr>
       \<and> u2 \<noteq> [] \<and> u3 \<noteq> []"
    then have iff: "pagesFrom get u1 qs \<longleftrightarrow> qs = [P1, P2, P3]" for qs
      using three_pages [of get u1 P1 u2 P2 u3 P3 qs] by blast
    then have "pagesFrom get u1 [P1, P2, P3]" by simp
    from pagesFrom_pullPages [OF this, of worker s "[]"]
    have "pullPages get worker (length [P1, P2, P3]) u1 s [] =
              Some (Inr (), fold worker (P1 @ P2 @ P3) s, [P1, P2, P3])"
      by simp
    moreover have "length [P1, P2, P3] = 3" by simp
    ultimately have "pullPages get worker 3 u1 s [] =
              Some (Inr (), fold worker (P1 @ P2 @ P3) s, [P1, P2, P3])"
      by (simp only:)
    with iff show "(pagesFrom get u1 qs \<longleftrightarrow> qs = [P1, P2, P3])
          \<and> pullPages get worker 3 u1 s [] =
              Some (Inr (), fold worker (P1 @ P2 @ P3) s, [P1, P2, P3])"
      by blast
  qed
  have self: "get' v1 = Inr \<lparr>data = Q1, nextUrl = Some v1\<rparr>
      \<longrightarrow> (pagesFrom get' v1 qs' \<longleftrightarrow> qs' = [Q1])
          \<and> pullPages get' worker' 1 v1 s' [] = Some (Inr (), fold worker' Q1 s', [Q1])"
    using self_page [of get' v1 Q1 qs'] by simp
  from pullSessions_iff [of p ps] pullCdrs_iff [of p ps'] pullLocations_iff [of p ep partial st ps'']
    three self
  show ?thesis by blast
qed

theorem pagination_follows_next_links_witness:
  "(\<exists>fuel r. pullSessions examplePartner fuel =
        Some (Inr r, [[OCPISession ''S1''], [OCPISession ''S2''], [OCPISession ''S3'']]))
   \<and> (\<exists>fuel r. pullCdrs examplePartner fuel = Some (Inr r, [[OCPICdr ''C1'']]))"
proof -
  let ?get = "getSessions examplePartner"
  let ?u1 = "sessionsUrl examplePartner"
  have u1: "?u1 \<noteq> ''page2''" "?u1 \<noteq> ''page3''"
    by (simp_all add: sessionsUrl_def examplePartner_def)
  have g1: "?get ?u1 = Inr \<lparr>data = [OCPISession ''S1''], nextUrl = Some ''page2''\<rparr>"
    using u1 by (simp add: examplePartner_def)
  have g2: "?get ''page2'' = Inr \<lparr>data = [OCPISession ''S2''], nextUrl = Some ''page3''\<rparr>"
    by (simp add: examplePartner_def)
  have g3: "?get ''page3'' = Inr \<lparr>data = [OCPISession ''S3''], nextUrl = None\<rparr>"
    by (simp add: examplePartner_def)
  have c1: "getCdrs examplePartner (cdrsUrl examplePartner)
      = Inr \<lparr>data = [OCPICdr ''C1''], nextUrl = Some (cdrsUrl examplePartner)\<rparr>"
    by (simp add: examplePartner_def)
  note t = pagination_follows_next_links
      [where p = examplePartner
         and ps = "[[OCPISession ''S1''], [OCPISession ''S2''], [OCPISession ''S3'']]"
         and ps' = "[[OCPICdr ''C1'']]"
         and get = ?get and ?u1.0 = ?u1 and ?P1.0 = "[OCPISession ''S1'']"
         and ?u2.0 = "''page2''" and ?P2.0 = "[OCPISession ''S2'']"
         and ?u3.0 = "''page3''" and ?P3.0 = "[OCPISession ''S3'']"
         and qs = "[[OCPISession ''S1''], [OCPISession ''S2''], [OCPISession ''S3'']]"
         and get' = "getCdrs examplePartner" and ?v1.0 = "cdrsUrl examplePartner"
         and ?Q1.0 = "[OCPICdr ''C1'']" and qs' = "[[OCPICdr ''C1'']]"
         and ep = exampleEndpoint and partial = True and st = exampleStorage and ps'' = "[]"
         and worker = "pullSession examplePartner" and s = newResult
         and worker' = "pullCdr examplePartner" and s' = newResult]
  from t g1 g2 g3 c1 show ?thesis by simp
qed

text \<open>
  C9. Replaying a location creates nothing: after \<open>processLocation\<close> has run for a
  location, a second run for the same location leaves the sites and the site areas as
  they are, within the same run of \<open>pullLocations\<close> (the working set carried on) and,
  when the working set had been read from the storage, also in a later run (the working
  set read again from the storage). When the working set had been read from the storage and held no site of the
  site name, and no site area had the name of the location's site area, the storage
  holds after the two runs exactly one site of that name for the company and exactly one
  site area of that name.
\<close>

theorem replayed_location_creates_nothing:
  "(sites (snd (processLocation p ep location company (snd (processLocation p ep location company st))))
      = sites (snd (processLocation p ep location company st))
    \<and> siteAreas (snd (processLocation p ep location company (snd (processLocation p ep location company st))))
      = siteAreas (snd (processLocation p ep location company st)))
   \<and> (existingSites st = getSites (company_id company) st \<longrightarrow>
        sites (snd (processLocation p ep location company
          ((snd (processLocation p ep location company st))
             \<lparr>existingSites :=
                getSites (company_id company) (snd (processLocation p ep location company st))\<rparr>)))
          = sites (snd (processLocation p ep location company st))
        \<and> siteAreas (snd (processLocation p ep location company
          ((snd (processLocation p ep location company st))
             \<lparr>existingSites :=
                getSites (company_id company) (snd (processLocation p ep location company st))\<rparr>)))
          = siteAreas (snd (processLocation p ep location company st)))
   \<and> (existingSites st = getSites (company_id company) st
       \<and> (\<forall>s \<in> set (existingSites st). site_name s \<noteq> siteNameOf p ep location)
       \<and> (\<forall>a \<in> set (siteAreas st).
             area_name a \<noteq> siteNameOf p ep location @ OCPI_SEPARATOR p @ locationID location)
      \<longrightarrow>
        length (filter (\<lambda>s. site_name s = siteNameOf p ep location \<and> site_companyID s = company_id company)
           (sites (snd (processLocation p ep location company
                          (snd (processLocation p ep location company st)))))) = 1
        \<and> length (filter (\<lambda>a. area_name a = siteNameOf p ep location @ OCPI_SEPARATOR p @ locationID location)
           (siteAreas (snd (processLocation p ep location company
                          (snd (processLocation p ep location company st)))))) = 1)"
proof -
  note replay = processLocation_replay [of p ep location company st]
  have same: "existingSites st = getSites (company_id company) st \<longrightarrow>
        (snd (processLocation p ep location company st))
          \<lparr>existingSites := getSites (company_id company) (snd (processLocation p ep location company st))\<rparr>
        = snd (processLocation p ep location company st)"
    using processLocation_refreshed [of st company p ep location] by auto
  have across: "existingSites st = getSites (company_id company) st \<longrightarrow>
        sites (snd (processLocation p ep location company
          ((snd (processLocation p ep location company st))
             \<lparr>existingSites :=
                getSites (company_id company) (snd (processLocation p ep location company st))\<rparr>)))
          = sites (snd (processLocation p ep location company st))
        \<and> siteAreas (snd (processLocation p ep location company
          ((snd (processLocation p ep location company st))
             \<lparr>existingSites :=
                getSites (company_id company) (snd (processLocation p ep location company st))\<rparr>)))
          = siteAreas (snd (processLocation p ep location company st))"
  proof
    assume "existingSites st = getSites (company_id company) st"
    with same have "(snd (processLocation p ep location company st))
          \<lparr>existingSites := getSites (company_id company) (snd (processLocation p ep location company st))\<rparr>
        = snd (processLocation p ep location company st)" by blast
    with replay show "sites (snd (processLocation p ep location company
          ((snd (processLocation p ep location company st))
             \<lparr>existingSites :=
                getSites (company_id company) (snd (processLocation p ep location company st))\<rparr>)))
          = sites (snd (processLocation p ep location company st))
        \<and> siteAreas (snd (processLocation p ep location company
          ((snd (processLocation p ep location company st))
             \<lparr>existingSites :=
                getSites (company_id company) (snd (processLocation p ep location company st))\<rparr>)))
          = siteAreas (snd (processLocation p ep location company st))" by simp
  qed
  have fresh: "existingSites st = getSites (company_id company) st
       \<and> (\<forall>s \<in> set (existingSites st). site_name s \<noteq> siteNameOf p ep location)
       \<and> (\<forall>a \<in> set (siteAreas st).
             area_name a \<noteq> siteNameOf p ep location @ OCPI_SEPARATOR p @ locationID location)
      \<longrightarrow>
        length (filter (\<lambda>s. site_name s = siteNameOf p ep location \<and> site_companyID s = company_id company)
           (sites (snd (processLocation p ep location company
                          (snd (processLocation p ep location company st)))))) = 1
        \<and> length (filter (\<lambda>a. area_name a = siteNameOf p ep location @ OCPI_SEPARATOR p @ locationID location)
           (siteAreas (snd (processLocation p ep location company
                          (snd (processLocation p ep location company st)))))) = 1"
    using processLocation_fresh [of st company p ep location] replay by simp
  from replay across fresh show ?thesis by blast
qed

theorem replayed_location_creates_nothing_witness:
  "existingSites exampleStorage = getSites (company_id exampleCompany) exampleStorage
   \<and> sites (snd (processLocation examplePartner exampleEndpoint exampleLocation exampleCompany
        (snd (processLocation examplePartner exampleEndpoint exampleLocation exampleCompany exampleStorage))))
      = [\<lparr>site_id = 0, site_name = ''Operator'', site_companyID = ''EP1'', site_issuer = False\<rparr>]
   \<and> siteAreas (snd (processLocation examplePartner exampleEndpoint exampleLocation exampleCompany
        (snd (processLocation examplePartner exampleEndpoint exampleLocation exampleCompany exampleStorage))))
      = [\<lparr>area_id = 1, area_name = ''Operator-LOC1'', area_siteID = 0, area_issuer = False\<rparr>]"
proof -
  let ?st1 = "snd (processLocation examplePartner exampleEndpoint exampleLocation exampleCompany exampleStorage)"
  have h1: "existingSites exampleStorage = getSites (company_id exampleCompany) exampleStorage"
    by (simp add: exampleStorage_def getSites_def)
  have st1: "sites ?st1 = [\<lparr>site_id = 0, site_name = ''Operator'', site_companyID = ''EP1'', site_issuer = False\<rparr>]
     \<and> siteAreas ?st1 = [\<lparr>area_id = 1, area_name = ''Operator-LOC1'', area_siteID = 0, area_issuer = False\<rparr>]"
    by (simp add: processLocation_def handleSite_def handleSiteArea_def siteNameOf_def
        siteAreaNameOf_def saveSite_def saveSiteArea_def getSiteAreas_def processEvse_def
        saveChargingStation_def saveChargingStationOcpiData_def andThen_def raise_def
        exampleStorage_def exampleLocation_def exampleCompany_def examplePartner_def)
  from replayed_location_creates_nothing
         [of examplePartner exampleEndpoint exampleLocation exampleCompany exampleStorage] h1 st1
  show ?thesis by simp
qed

text \<open>
  C10. When the base class's constructor returns, constructing an \<open>EmspOCPIClient\<close> with
  an endpoint whose role is not \<open>EMSP\<close> throws the structured error of the constructor,
  and with an endpoint whose role is \<open>EMSP\<close> it returns the object; whatever the base
  class does, the construction does not succeed for a role other than \<open>EMSP\<close>.
\<close>

theorem constructor_requires_emsp_role:
  "(role ep \<noteq> EMSP \<longrightarrow> isl (newEmspOCPIClient super tenant settings ep))
   \<and> (super tenant settings ep EMSP = Inr this \<longrightarrow>
        (role ep \<noteq> EMSP \<longrightarrow> newEmspOCPIClient super tenant settings ep =
            Inl (BackendError ''EmspOCPIClient requires OCPI Endpoint with role EMSP''))
      \<and> (role ep = EMSP \<longrightarrow> newEmspOCPIClient super tenant settings ep = Inr this))"
  by (simp add: newEmspOCPIClient_def split: sum.splits)

theorem constructor_requires_emsp_role_witness:
  "newEmspOCPIClient (\<lambda>t s e r. Inr (e, r)) exampleTenant () (exampleEndpoint\<lparr>role := CPO\<rparr>) =
     Inl (BackendError ''EmspOCPIClient requires OCPI Endpoint with role EMSP'')
   \<and> newEmspOCPIClient (\<lambda>t s e r. Inr (e, r)) exampleTenant () exampleEndpoint =
     Inr (exampleEndpoint, EMSP)"
proof -
  have h: "role exampleEndpoint = EMSP" "role (exampleEndpoint\<lparr>role := CPO\<rparr>) \<noteq> EMSP"
    by (simp_all add: exampleEndpoint_def)
  from constructor_requires_emsp_role
         [of "exampleEndpoint\<lparr>role := CPO\<rparr>" "\<lambda>t s e r. Inr (e, r)" exampleTenant "()"
             "(exampleEndpoint\<lparr>role := CPO\<rparr>, EMSP)"]
       constructor_requires_emsp_role
         [of exampleEndpoint "\<lambda>t s e r. Inr (e, r)" exampleTenant "()" "(exampleEndpoint, EMSP)"]
       h
  show ?thesis by simp
qed

end
